theory Spec2Isabelle
  imports Complex_Main
begin

section \<open>The Moebius strip of src/Mobius-strip.py\<close>

text \<open>
  The class \<^verbatim>\<open>MobiusStrip\<close> stores the parameters \<^verbatim>\<open>R\<close>, \<^verbatim>\<open>w\<close>, \<^verbatim>\<open>n\<close>, the sampling
  grid and the mesh, and offers \<^verbatim>\<open>get_mesh\<close>, \<^verbatim>\<open>compute_surface_area\<close> and
  \<^verbatim>\<open>compute_edge_length\<close>.

  Numbers: Python's \<^verbatim>\<open>float\<close> and numpy's \<^verbatim>\<open>float64\<close> are modelled by \<^typ>\<open>real\<close>, so
  the statements below are about exact real arithmetic and rounding is outside the
  model. Overflow to \<^verbatim>\<open>inf\<close> and \<^verbatim>\<open>nan\<close> is modelled for the two measurements only, by a
  second evaluation that records whether every intermediate result is in the range of
  \<^verbatim>\<open>float64\<close>. The resolution \<^verbatim>\<open>n\<close> is a Python \<^verbatim>\<open>int\<close>, modelled
  by \<^typ>\<open>int\<close>. A one-dimensional array is a list, a two-dimensional array the list of
  its rows.
\<close>

subsection \<open>Errors\<close>

text \<open>
  The exceptions the code can raise: \<^verbatim>\<open>np.linspace\<close> raises \<^verbatim>\<open>ValueError\<close> for a negative
  number of samples, and the Python division \<^verbatim>\<open>2 * np.pi / (self.n - 1)\<close> raises
  \<^verbatim>\<open>ZeroDivisionError\<close> when \<^verbatim>\<open>self.n\<close> is 1.
\<close>

datatype error = ValueError | ZeroDivisionError

type_synonym array1 = "real list"
type_synonym array2 = "real list list"

subsection \<open>The numpy operations the class uses\<close>

text \<open>
  \<^verbatim>\<open>np.linspace(start, stop, num)\<close> with the default \<^verbatim>\<open>endpoint=True\<close>:
  \<^verbatim>\<open>div = num - 1\<close>, \<^verbatim>\<open>y = arange(0, num)\<close>, \<^verbatim>\<open>step = delta / div\<close> when \<^verbatim>\<open>div > 0\<close>,
  \<^verbatim>\<open>y = y * step + start\<close>, and the last sample is overwritten by \<^verbatim>\<open>stop\<close> when
  \<^verbatim>\<open>num > 1\<close>.
\<close>

definition linspace :: "real \<Rightarrow> real \<Rightarrow> int \<Rightarrow> error + array1" where
  "linspace start stop num =
     (if num < 0 then Inl ValueError
      else
        let divisor = num - 1;
            delta = stop - start;
            y0 = map real [0 ..< nat num];
            y1 = (if 0 < divisor
                  then (let step = delta / real_of_int divisor
                        in if step = 0
                           then map (\<lambda>k. k / real_of_int divisor * delta) y0
                           else map (\<lambda>k. k * step) y0)
                  else map (\<lambda>k. k * delta) y0);
            y2 = map (\<lambda>k. k + start) y1
        in Inr (if 1 < num then y2[nat num - 1 := stop] else y2))"

text \<open>
  \<^verbatim>\<open>np.meshgrid(u, v)\<close> with the default \<^verbatim>\<open>indexing='xy'\<close>: both results have
  \<^verbatim>\<open>len(v)\<close> rows and \<^verbatim>\<open>len(u)\<close> columns, \<^verbatim>\<open>U[i][j] = u[j]\<close> and \<^verbatim>\<open>V[i][j] = v[i]\<close>.
\<close>

definition meshgrid :: "array1 \<Rightarrow> array1 \<Rightarrow> array2 \<times> array2" where
  "meshgrid us vs =
     (replicate (length vs) us, map (\<lambda>vi. replicate (length us) vi) vs)"

text \<open>An arithmetic expression over two arrays of the same shape, cell by cell.\<close>

definition elementwise :: "(real \<Rightarrow> real \<Rightarrow> real) \<Rightarrow> array2 \<Rightarrow> array2 \<Rightarrow> array2" where
  "elementwise f A B = map2 (\<lambda>ra rb. map2 f ra rb) A B"

text \<open>
  \<^verbatim>\<open>np.trapz(y, dx=d)\<close> on a one-dimensional array:
  \<^verbatim>\<open>(d * (y[1:] + y[:-1]) / 2.0).sum()\<close>.
\<close>

definition trapz :: "array1 \<Rightarrow> real \<Rightarrow> real" where
  "trapz y dx = sum_list (map2 (\<lambda>a b. dx * (a + b) / 2) (tl y) (butlast y))"

text \<open>
  \<^verbatim>\<open>np.trapz(y, dx=d, axis=0)\<close> on a two-dimensional array: the same expression on the
  row slices \<^verbatim>\<open>y[1:, :]\<close> and \<^verbatim>\<open>y[:-1, :]\<close>, summed over the rows; the result has one
  entry per column.
\<close>

definition ncols :: "array2 \<Rightarrow> nat" where
  "ncols A = (case A of [] \<Rightarrow> 0 | r # _ \<Rightarrow> length r)"

definition sum_axis0 :: "nat \<Rightarrow> array2 \<Rightarrow> array1" where
  "sum_axis0 k rows = foldr (\<lambda>r acc. map2 (+) r acc) rows (replicate k 0)"

definition trapz_axis0 :: "array2 \<Rightarrow> real \<Rightarrow> array1" where
  "trapz_axis0 y dx =
     sum_axis0 (ncols y)
       (map2 (\<lambda>ra rb. map2 (\<lambda>a b. dx * (a + b) / 2) ra rb) (tl y) (butlast y))"

subsection \<open>The parametric equations and their partial derivatives\<close>

text \<open>
  The expressions of \<^verbatim>\<open>_generate_mesh\<close>, \<^verbatim>\<open>compute_surface_area\<close> and
  \<^verbatim>\<open>compute_edge_length\<close>, as functions of one cell \<open>(u, v)\<close>. The code writes them
  three times (twice for the u-partials), with the same text each time.
\<close>

definition pos_x :: "real \<Rightarrow> real \<Rightarrow> real \<Rightarrow> real" where
  "pos_x R u v = (R + v * cos (u / 2)) * cos u"

definition pos_y :: "real \<Rightarrow> real \<Rightarrow> real \<Rightarrow> real" where
  "pos_y R u v = (R + v * cos (u / 2)) * sin u"

definition pos_z :: "real \<Rightarrow> real \<Rightarrow> real" where
  "pos_z u v = v * sin (u / 2)"

definition x_u :: "real \<Rightarrow> real \<Rightarrow> real \<Rightarrow> real" where
  "x_u R u v = - (R + v * cos (u / 2)) * sin u - (v / 2) * sin (u / 2) * cos u"

definition y_u :: "real \<Rightarrow> real \<Rightarrow> real \<Rightarrow> real" where
  "y_u R u v = (R + v * cos (u / 2)) * cos u - (v / 2) * sin (u / 2) * sin u"

definition z_u :: "real \<Rightarrow> real \<Rightarrow> real" where
  "z_u u v = (v / 2) * cos (u / 2)"

definition x_v :: "real \<Rightarrow> real" where
  "x_v u = cos (u / 2) * cos u"

definition y_v :: "real \<Rightarrow> real" where
  "y_v u = cos (u / 2) * sin u"

definition z_v :: "real \<Rightarrow> real" where
  "z_v u = sin (u / 2)"

text \<open>The integrand of \<^verbatim>\<open>compute_surface_area\<close>: the norm of the cross product.\<close>

definition area_integrand :: "real \<Rightarrow> real \<Rightarrow> real \<Rightarrow> real" where
  "area_integrand R u v =
     sqrt ((y_u R u v * z_v u - z_u u v * y_v u)\<^sup>2 +
           (z_u u v * x_v u - x_u R u v * z_v u)\<^sup>2 +
           (x_u R u v * y_v u - y_u R u v * x_v u)\<^sup>2)"

text \<open>The integrand of \<^verbatim>\<open>compute_edge_length\<close>: the speed along the curve of fixed \<open>v\<close>.\<close>

definition arc_integrand :: "real \<Rightarrow> real \<Rightarrow> real \<Rightarrow> real" where
  "arc_integrand R v u = sqrt ((x_u R u v)\<^sup>2 + (y_u R u v)\<^sup>2 + (z_u u v)\<^sup>2)"

subsection \<open>The class\<close>

record MobiusStrip =
  self_R :: real
  self_w :: real
  self_n :: int
  self_u :: array1
  self_v :: array1
  self_U :: array2
  self_V :: array2
  self_mesh :: "(array2 \<times> array2 \<times> array2) option"

text \<open>\<^verbatim>\<open>_generate_mesh\<close>: evaluates the position on the grid and stores it.\<close>

definition generate_mesh :: "MobiusStrip \<Rightarrow> MobiusStrip" where
  "generate_mesh self =
     (let u = self_U self; v = self_V self;
          x = elementwise (pos_x (self_R self)) u v;
          y = elementwise (pos_y (self_R self)) u v;
          z = elementwise pos_z u v
      in self\<lparr>self_mesh := Some (x, y, z)\<rparr>)"

text \<open>
  \<^verbatim>\<open>__init__\<close>: no check of \<^verbatim>\<open>n\<close>; the only failure is the one \<^verbatim>\<open>np.linspace\<close> raises.
\<close>

definition init :: "real \<Rightarrow> real \<Rightarrow> int \<Rightarrow> error + MobiusStrip" where
  "init R w n =
     (case linspace 0 (2 * pi) n of
        Inl e \<Rightarrow> Inl e
      | Inr u \<Rightarrow>
          (case linspace (- w / 2) (w / 2) n of
             Inl e \<Rightarrow> Inl e
           | Inr v \<Rightarrow>
               (case meshgrid u v of
                  (U, V) \<Rightarrow>
                    Inr (generate_mesh
                      \<lparr>self_R = R, self_w = w, self_n = n, self_u = u, self_v = v,
                       self_U = U, self_V = V, self_mesh = None\<rparr>))))"

text \<open>
  The methods take the object and return their result together with the object as
  they leave it. A raised exception is \<open>Inl\<close>.
\<close>

definition get_mesh ::
  "MobiusStrip \<Rightarrow> (array2 \<times> array2 \<times> array2) option \<times> MobiusStrip" where
  "get_mesh self = (self_mesh self, self)"

definition compute_surface_area :: "MobiusStrip \<Rightarrow> (error + real) \<times> MobiusStrip" where
  "compute_surface_area self =
     (if self_n self - 1 = 0 then (Inl ZeroDivisionError, self)
      else
        let u = self_U self; v = self_V self;
            du = 2 * pi / real_of_int (self_n self - 1);
            dv = self_w self / real_of_int (self_n self - 1);
            integrand = elementwise (area_integrand (self_R self)) u v;
            area = trapz (trapz_axis0 integrand dv) du
        in (Inr area, self))"

text \<open>The body of the loop over \<^verbatim>\<open>v_edges\<close>: the value of \<^verbatim>\<open>length\<close> for one edge.\<close>

definition edge_length :: "MobiusStrip \<Rightarrow> real \<Rightarrow> real \<Rightarrow> real" where
  "edge_length self du v =
     (let u = self_u self;
          integrand = map (arc_integrand (self_R self) v) u
      in trapz integrand du)"

definition compute_edge_length :: "MobiusStrip \<Rightarrow> (error + real) \<times> MobiusStrip" where
  "compute_edge_length self =
     (if self_n self - 1 = 0 then (Inl ZeroDivisionError, self)
      else
        let du = 2 * pi / real_of_int (self_n self - 1);
            v_edges = [self_w self / 2, - self_w self / 2];
            total_length = foldl (\<lambda>total v. total + edge_length self du v) 0 v_edges
        in (Inr total_length, self))"

text \<open>Construction followed by one measurement, as the example at the end of the file does.\<close>

definition surface_area_of :: "real \<Rightarrow> real \<Rightarrow> int \<Rightarrow> error + real" where
  "surface_area_of R w n =
     (case init R w n of Inl e \<Rightarrow> Inl e | Inr h \<Rightarrow> fst (compute_surface_area h))"

definition edge_length_of :: "real \<Rightarrow> real \<Rightarrow> int \<Rightarrow> error + real" where
  "edge_length_of R w n =
     (case init R w n of Inl e \<Rightarrow> Inl e | Inr h \<Rightarrow> fst (compute_edge_length h))"

text \<open>The read-only operations of the public interface, and a sequence of calls.\<close>

datatype operation = GetMesh | ComputeSurfaceArea | ComputeEdgeLength

fun call :: "operation \<Rightarrow> MobiusStrip \<Rightarrow> MobiusStrip" where
  "call GetMesh self = snd (get_mesh self)"
| "call ComputeSurfaceArea self = snd (compute_surface_area self)"
| "call ComputeEdgeLength self = snd (compute_edge_length self)"

fun calls :: "operation list \<Rightarrow> MobiusStrip \<Rightarrow> MobiusStrip" where
  "calls [] self = self"
| "calls (c # cs) self = calls cs (call c self)"

subsection \<open>The two measurements within the range of float64\<close>

text \<open>
  The real numbers have no largest element, so that a result is a finite \<^verbatim>\<open>float64\<close>
  cannot be said of them. The arithmetic of the two measurements is therefore written
  out a second time, operation by operation as the source has it, on pairs of a value
  and a flag. The value is the exact result. The flag is true as long as the operands
  of every operation so far were in range and its exact result is, in magnitude, at
  most the largest finite \<^verbatim>\<open>float64\<close>, \<^verbatim>\<open>(2 - 2**-52) * 2**1023\<close>. A false flag stands
  for \<^verbatim>\<open>inf\<close> or \<^verbatim>\<open>nan\<close>: numpy does not raise on overflow, and none of the operations
  the two methods use (\<^verbatim>\<open>+\<close>, \<^verbatim>\<open>-\<close>, \<^verbatim>\<open>*\<close>, \<^verbatim>\<open>/\<close> by a constant, \<^verbatim>\<open>**2\<close>, \<^verbatim>\<open>np.sqrt\<close>,
  \<^verbatim>\<open>np.cos\<close>, \<^verbatim>\<open>np.sin\<close>, \<^verbatim>\<open>sum\<close>) turns \<^verbatim>\<open>inf\<close> or \<^verbatim>\<open>nan\<close> back into a finite number, so
  the value a method returns is finite exactly when no intermediate result has left
  the range. Rounding is not modelled: under a false flag the value component is not
  what the method returns, and parameters within a rounding error of the threshold
  may be flagged differently from the machine.
\<close>

definition float64_max :: real where
  "float64_max = (2 - 1 / 2 ^ 52) * 2 ^ 1023"

definition in_range :: "real \<Rightarrow> bool" where
  "in_range x \<longleftrightarrow> \<bar>x\<bar> \<le> float64_max"

text \<open>A number with its flag; a literal or a stored value; a unary and a binary operation.\<close>

type_synonym f64 = "real \<times> bool"

definition lit :: "real \<Rightarrow> f64" where
  "lit x = (x, in_range x)"

definition f_op1 :: "(real \<Rightarrow> real) \<Rightarrow> f64 \<Rightarrow> f64" where
  "f_op1 g a = (g (fst a), snd a \<and> in_range (g (fst a)))"

definition f_op2 :: "(real \<Rightarrow> real \<Rightarrow> real) \<Rightarrow> f64 \<Rightarrow> f64 \<Rightarrow> f64" where
  "f_op2 g a b = (g (fst a) (fst b), snd a \<and> snd b \<and> in_range (g (fst a) (fst b)))"

text \<open>The operations the two methods use.\<close>

abbreviation f_add :: "f64 \<Rightarrow> f64 \<Rightarrow> f64" where "f_add \<equiv> f_op2 (+)"
abbreviation f_sub :: "f64 \<Rightarrow> f64 \<Rightarrow> f64" where "f_sub \<equiv> f_op2 (-)"
abbreviation f_mul :: "f64 \<Rightarrow> f64 \<Rightarrow> f64" where "f_mul \<equiv> f_op2 (\<lambda>x y. x * y)"
abbreviation f_div :: "f64 \<Rightarrow> f64 \<Rightarrow> f64" where "f_div \<equiv> f_op2 (/)"
abbreviation f_neg :: "f64 \<Rightarrow> f64" where "f_neg \<equiv> f_op1 uminus"
abbreviation f_sqr :: "f64 \<Rightarrow> f64" where "f_sqr \<equiv> f_op1 (\<lambda>x. x\<^sup>2)"
abbreviation f_sqrt :: "f64 \<Rightarrow> f64" where "f_sqrt \<equiv> f_op1 sqrt"
abbreviation f_cos :: "f64 \<Rightarrow> f64" where "f_cos \<equiv> f_op1 cos"
abbreviation f_sin :: "f64 \<Rightarrow> f64" where "f_sin \<equiv> f_op1 sin"

text \<open>
  The partial derivatives and the two integrands, with the operations in the order
  in which Python evaluates the expressions of the source.
\<close>

definition x_u_f64 :: "f64 \<Rightarrow> f64 \<Rightarrow> f64 \<Rightarrow> f64" where
  "x_u_f64 R u v =
     f_sub (f_mul (f_neg (f_add R (f_mul v (f_cos (f_div u (lit 2)))))) (f_sin u))
           (f_mul (f_mul (f_div v (lit 2)) (f_sin (f_div u (lit 2)))) (f_cos u))"

definition y_u_f64 :: "f64 \<Rightarrow> f64 \<Rightarrow> f64 \<Rightarrow> f64" where
  "y_u_f64 R u v =
     f_sub (f_mul (f_add R (f_mul v (f_cos (f_div u (lit 2))))) (f_cos u))
           (f_mul (f_mul (f_div v (lit 2)) (f_sin (f_div u (lit 2)))) (f_sin u))"

definition z_u_f64 :: "f64 \<Rightarrow> f64 \<Rightarrow> f64" where
  "z_u_f64 u v = f_mul (f_div v (lit 2)) (f_cos (f_div u (lit 2)))"

definition x_v_f64 :: "f64 \<Rightarrow> f64" where
  "x_v_f64 u = f_mul (f_cos (f_div u (lit 2))) (f_cos u)"

definition y_v_f64 :: "f64 \<Rightarrow> f64" where
  "y_v_f64 u = f_mul (f_cos (f_div u (lit 2))) (f_sin u)"

definition z_v_f64 :: "f64 \<Rightarrow> f64" where
  "z_v_f64 u = f_sin (f_div u (lit 2))"

definition area_integrand_f64 :: "f64 \<Rightarrow> f64 \<Rightarrow> f64 \<Rightarrow> f64" where
  "area_integrand_f64 R u v =
     f_sqrt
       (f_add
          (f_add (f_sqr (f_sub (f_mul (y_u_f64 R u v) (z_v_f64 u)) (f_mul (z_u_f64 u v) (y_v_f64 u))))
                 (f_sqr (f_sub (f_mul (z_u_f64 u v) (x_v_f64 u)) (f_mul (x_u_f64 R u v) (z_v_f64 u)))))
          (f_sqr (f_sub (f_mul (x_u_f64 R u v) (y_v_f64 u)) (f_mul (y_u_f64 R u v) (x_v_f64 u)))))"

definition arc_integrand_f64 :: "f64 \<Rightarrow> f64 \<Rightarrow> f64 \<Rightarrow> f64" where
  "arc_integrand_f64 R v u =
     f_sqrt (f_add (f_add (f_sqr (x_u_f64 R u v)) (f_sqr (y_u_f64 R u v))) (f_sqr (z_u_f64 u v)))"

text \<open>
  \<^verbatim>\<open>np.trapz\<close> on a one-dimensional array and along axis 0, as above. The terms that are
  summed are non-negative whenever the spacing is, so the order in which \<^verbatim>\<open>sum\<close> adds
  them does not matter for the range.
\<close>

definition f_sum :: "f64 list \<Rightarrow> f64" where
  "f_sum xs = foldr f_add xs (lit 0)"

definition trapz_f64 :: "f64 list \<Rightarrow> f64 \<Rightarrow> f64" where
  "trapz_f64 y dx =
     f_sum (map2 (\<lambda>a b. f_div (f_mul dx (f_add a b)) (lit 2)) (tl y) (butlast y))"

definition sum_axis0_f64 :: "nat \<Rightarrow> f64 list list \<Rightarrow> f64 list" where
  "sum_axis0_f64 k rows = foldr (\<lambda>r acc. map2 f_add r acc) rows (replicate k (lit 0))"

definition trapz_axis0_f64 :: "f64 list list \<Rightarrow> f64 \<Rightarrow> f64 list" where
  "trapz_axis0_f64 y dx =
     sum_axis0_f64 (case y of [] \<Rightarrow> 0 | r # _ \<Rightarrow> length r)
       (map2 (\<lambda>ra rb. map2 (\<lambda>a b. f_div (f_mul dx (f_add a b)) (lit 2)) ra rb) (tl y) (butlast y))"

text \<open>
  The two methods. The arrays \<^verbatim>\<open>x\<close>, \<^verbatim>\<open>y\<close>, \<^verbatim>\<open>z\<close> that they also evaluate do not enter
  the result and are left out, as in the embedding over the real numbers. The object
  is not changed and is not returned again. The divisor \<^verbatim>\<open>self.n - 1\<close> is converted to a
  float; it is in range for every resolution whose grid can be stored, and beyond the
  range, where Python refuses the conversion, the flag is false.
\<close>

definition compute_surface_area_f64 :: "MobiusStrip \<Rightarrow> error + f64" where
  "compute_surface_area_f64 self =
     (if self_n self - 1 = 0 then Inl ZeroDivisionError
      else
        let u = self_U self; v = self_V self;
            du = f_div (f_mul (lit 2) (lit pi)) (lit (real_of_int (self_n self - 1)));
            dv = f_div (lit (self_w self)) (lit (real_of_int (self_n self - 1)));
            integrand =
              map2 (\<lambda>ru rv. map2 (\<lambda>a b. area_integrand_f64 (lit (self_R self)) (lit a) (lit b)) ru rv)
                u v;
            area = trapz_f64 (trapz_axis0_f64 integrand dv) du
        in Inr area)"

definition edge_length_f64 :: "MobiusStrip \<Rightarrow> f64 \<Rightarrow> f64 \<Rightarrow> f64" where
  "edge_length_f64 self du v =
     (let u = self_u self;
          integrand = map (\<lambda>a. arc_integrand_f64 (lit (self_R self)) v (lit a)) u
      in trapz_f64 integrand du)"

definition compute_edge_length_f64 :: "MobiusStrip \<Rightarrow> error + f64" where
  "compute_edge_length_f64 self =
     (if self_n self - 1 = 0 then Inl ZeroDivisionError
      else
        let du = f_div (f_mul (lit 2) (lit pi)) (lit (real_of_int (self_n self - 1)));
            v_edges = [f_div (lit (self_w self)) (lit 2), f_div (f_neg (lit (self_w self))) (lit 2)];
            total_length = foldl (\<lambda>total v. f_add total (edge_length_f64 self du v)) (lit 0) v_edges
        in Inr total_length)"

text \<open>Construction followed by \<^verbatim>\<open>compute_surface_area\<close>.\<close>

definition surface_area_f64_of :: "real \<Rightarrow> real \<Rightarrow> int \<Rightarrow> error + f64" where
  "surface_area_f64_of R w n =
     (case init R w n of Inl e \<Rightarrow> Inl e | Inr h \<Rightarrow> compute_surface_area_f64 h)"

text \<open>
  A bound used in the proofs: the flag is true and the value is at most \<open>2 ^ k\<close> in
  magnitude, with \<open>k \<le> 1023\<close>.
\<close>

definition fits :: "nat \<Rightarrow> f64 \<Rightarrow> bool" where
  "fits k a \<longleftrightarrow> k \<le> 1023 \<and> snd a \<and> \<bar>fst a\<bar> \<le> 2 ^ k"

subsection \<open>The quantities of the specification\<close>

text \<open>
  The composite trapezoidal rule with \<open>m\<close> intervals of width \<open>h\<close> on the samples
  \<open>f 0, \<dots>, f m\<close>.
\<close>

definition trapezoid :: "real \<Rightarrow> (nat \<Rightarrow> real) \<Rightarrow> nat \<Rightarrow> real" where
  "trapezoid h f m = (\<Sum>k<m. h * (f k + f (Suc k)) / 2)"

text \<open>The \<open>k\<close>-th of \<open>n\<close> uniformly spaced points from \<open>a\<close> to \<open>b\<close>.\<close>

definition grid_point :: "real \<Rightarrow> real \<Rightarrow> int \<Rightarrow> nat \<Rightarrow> real" where
  "grid_point a b n k = a + real k * ((b - a) / real_of_int (n - 1))"

text \<open>
  What the specification says \<^verbatim>\<open>computeSurfaceArea\<close> returns: the trapezoidal rule along
  \<open>v\<close> with spacing \<open>dv = w / (n - 1)\<close> for each grid value of \<open>u\<close>, then the trapezoidal
  rule along \<open>u\<close> with spacing \<open>du = 2\<pi> / (n - 1)\<close> on the \<open>n\<close> results.
\<close>

definition surface_area_spec :: "real \<Rightarrow> real \<Rightarrow> int \<Rightarrow> real" where
  "surface_area_spec R w n =
     (let m = nat (n - 1);
          du = 2 * pi / real_of_int (n - 1);
          dv = w / real_of_int (n - 1)
      in trapezoid du
           (\<lambda>j. trapezoid dv
                  (\<lambda>i. area_integrand R (grid_point 0 (2 * pi) n j)
                                          (grid_point (- w / 2) (w / 2) n i)) m) m)"

text \<open>
  What the specification says one edge contributes: the trapezoidal rule with spacing
  \<open>du\<close> over \<open>u\<close> from 0 to \<open>2\<pi>\<close> on the speed of the curve of fixed \<open>v\<close>.
\<close>

definition edge_spec :: "real \<Rightarrow> int \<Rightarrow> real \<Rightarrow> real" where
  "edge_spec R n v =
     trapezoid (2 * pi / real_of_int (n - 1))
       (\<lambda>j. arc_integrand R v (grid_point 0 (2 * pi) n j)) (nat (n - 1))"

text \<open>
  The invariant of the parameter grid for the parameters \<open>w\<close> and \<open>n\<close>: the end points
  of both sequences and the uniform spacing.
\<close>

definition grid_invariant :: "real \<Rightarrow> int \<Rightarrow> MobiusStrip \<Rightarrow> bool" where
  "grid_invariant w n h =
     (let m = nat (n - 1);
          du = 2 * pi / real_of_int (n - 1);
          dv = w / real_of_int (n - 1)
      in length (self_u h) = Suc m \<and> length (self_v h) = Suc m \<and>
         self_u h ! 0 = 0 \<and> self_u h ! m = 2 * pi \<and>
         self_v h ! 0 = - w / 2 \<and> self_v h ! m = w / 2 \<and>
         (\<forall>k \<in> {..<m}. self_u h ! Suc k - self_u h ! k = du) \<and>
         (\<forall>k \<in> {..<m}. self_v h ! Suc k - self_v h ! k = dv))"

section \<open>Properties\<close>

subsection \<open>The numpy operations\<close>

lemma linspace_length:
  "0 \<le> num \<Longrightarrow> \<exists>ys. linspace a b num = Inr ys \<and> length ys = nat num"
  by (simp add: linspace_def Let_def)

lemma linspace_nth:
  assumes "2 \<le> num" and "k < nat num" and "linspace a b num = Inr ys"
  shows "ys ! k = grid_point a b num k"
proof -
  have d: "real_of_int (num - 1) \<noteq> 0" using assms(1) by simp
  have last: "a + real (nat num - 1) * ((b - a) / real_of_int (num - 1)) = b"
  proof -
    have "real (nat num - 1) = real_of_int (num - 1)" using assms(1) by (simp add: of_nat_diff)
    then show ?thesis using d by simp
  qed
  show ?thesis
  proof (cases "k = nat num - 1")
    case True
    then show ?thesis using assms last
      by (auto simp: linspace_def Let_def grid_point_def split: if_splits)
  next
    case False
    then show ?thesis using assms
      by (auto simp: linspace_def Let_def grid_point_def algebra_simps split: if_splits)
  qed
qed

lemma trapz_sum:
  "trapz y dx = (\<Sum>k<length y - 1. dx * (y ! Suc k + y ! k) / 2)"
proof -
  have "trapz y dx = (\<Sum>k = 0..<length y - 1. (map2 (\<lambda>a b. dx * (a + b) / 2) (tl y) (butlast y)) ! k)"
    unfolding trapz_def by (simp add: sum_list_sum_nth)
  also have "\<dots> = (\<Sum>k = 0..<length y - 1. dx * (y ! Suc k + y ! k) / 2)"
    by (rule sum.cong) (auto simp: nth_tl nth_butlast)
  finally show ?thesis by (simp add: atLeast0LessThan)
qed

lemma trapz_trapezoid:
  "length y = Suc m \<Longrightarrow> trapz y dx = trapezoid dx (\<lambda>k. y ! k) m"
  by (simp add: trapz_sum trapezoid_def add.commute)

lemma sum_axis0_length:
  "\<forall>r \<in> set rows. length r = k \<Longrightarrow> length (sum_axis0 k rows) = k"
  by (induction rows) (auto simp: sum_axis0_def)

lemma sum_axis0_nth:
  "\<forall>r \<in> set rows. length r = k \<Longrightarrow> j < k \<Longrightarrow>
     sum_axis0 k rows ! j = (\<Sum>r\<leftarrow>rows. r ! j)"
proof (induction rows)
  case Nil
  then show ?case by (simp add: sum_axis0_def)
next
  case (Cons r rows)
  have len: "length (sum_axis0 k rows) = k" using Cons.prems by (simp add: sum_axis0_length)
  have "sum_axis0 k (r # rows) = map2 (+) r (sum_axis0 k rows)"
    by (simp add: sum_axis0_def)
  then show ?case using Cons len by simp
qed

lemma trapz_axis0_rows:
  assumes "\<forall>r \<in> set A. length r = k"
  shows "\<forall>r \<in> set (map2 (\<lambda>ra rb. map2 (\<lambda>a b. dx * (a + b) / 2) ra rb) (tl A) (butlast A)).
           length r = k"
proof -
  have "\<And>ra rb. (ra, rb) \<in> set (zip (tl A) (butlast A)) \<Longrightarrow> length ra = k \<and> length rb = k"
    using assms by (metis in_set_butlastD in_set_zipE list.set_sel(2) tl_Nil)
  then show ?thesis by auto
qed

lemma ncols_eq: "A \<noteq> [] \<Longrightarrow> \<forall>r \<in> set A. length r = k \<Longrightarrow> ncols A = k"
  by (cases A) (auto simp: ncols_def)

lemma trapz_axis0_length:
  "A \<noteq> [] \<Longrightarrow> \<forall>r \<in> set A. length r = k \<Longrightarrow> length (trapz_axis0 A dx) = k"
  unfolding trapz_axis0_def
  by (simp add: ncols_eq sum_axis0_length [OF trapz_axis0_rows])

lemma trapz_axis0_nth:
  assumes "A \<noteq> []" and rows: "\<forall>r \<in> set A. length r = k" and "j < k"
  shows "trapz_axis0 A dx ! j = trapz (map (\<lambda>r. r ! j) A) dx"
proof -
  let ?g = "\<lambda>a b. dx * (a + b) / 2"
  let ?rows = "map2 (\<lambda>ra rb. map2 ?g ra rb) (tl A) (butlast A)"
  have in_zip: "\<And>ra rb. (ra, rb) \<in> set (zip (tl A) (butlast A)) \<Longrightarrow> length ra = k \<and> length rb = k"
    using rows by (metis in_set_butlastD in_set_zipE list.set_sel(2) tl_Nil)
  have "trapz_axis0 A dx ! j = (\<Sum>r\<leftarrow>?rows. r ! j)"
  proof -
    have "ncols A = k" using assms by (simp add: ncols_eq)
    then show ?thesis
      unfolding trapz_axis0_def
      using sum_axis0_nth [OF trapz_axis0_rows [OF rows] \<open>j < k\<close>, of dx] by simp
  qed
  also have "map (\<lambda>r. r ! j) ?rows
      = map (\<lambda>(ra, rb). ?g (ra ! j) (rb ! j)) (zip (tl A) (butlast A))"
    using in_zip \<open>j < k\<close> by (auto simp: map_eq_conv)
  also have "\<dots> = map2 ?g (tl (map (\<lambda>r. r ! j) A)) (butlast (map (\<lambda>r. r ! j) A))"
    by (simp add: map_tl [symmetric] map_butlast [symmetric] zip_map_map case_prod_unfold)
  finally show ?thesis by (simp add: trapz_def)
qed

lemma elementwise_meshgrid:
  "meshgrid us vs = (A, B) \<Longrightarrow> elementwise f A B = map (\<lambda>v. map (\<lambda>u. f u v) us) vs"
  by (auto simp: meshgrid_def elementwise_def list_eq_iff_nth_eq)

subsection \<open>Construction and the closed form of the two measurements\<close>

lemma init_handle:
  assumes "0 \<le> n"
  shows "\<exists>us vs. linspace 0 (2 * pi) n = Inr us \<and> linspace (- w / 2) (w / 2) n = Inr vs \<and>
           length us = nat n \<and> length vs = nat n \<and>
           init R w n = Inr \<lparr>self_R = R, self_w = w, self_n = n, self_u = us, self_v = vs,
             self_U = replicate (nat n) us, self_V = map (\<lambda>vi. replicate (nat n) vi) vs,
             self_mesh = Some (map (\<lambda>v. map (\<lambda>u. pos_x R u v) us) vs,
                               map (\<lambda>v. map (\<lambda>u. pos_y R u v) us) vs,
                               map (\<lambda>v. map (\<lambda>u. pos_z u v) us) vs)\<rparr>"
proof -
  obtain us where us: "linspace 0 (2 * pi) n = Inr us" "length us = nat n"
    using linspace_length [OF assms] by blast
  obtain vs where vs: "linspace (- w / 2) (w / 2) n = Inr vs" "length vs = nat n"
    using linspace_length [OF assms] by blast
  have mg: "meshgrid us vs = (replicate (nat n) us, map (\<lambda>vi. replicate (nat n) vi) vs)"
    using us vs by (simp add: meshgrid_def)
  show ?thesis
    using us vs mg by (simp add: init_def generate_mesh_def Let_def elementwise_meshgrid [OF mg])
qed

lemma init_fields:
  assumes "0 \<le> n" and "init R w n = Inr h"
  shows "self_R h = R" and "self_w h = w" and "self_n h = n"
    and "linspace 0 (2 * pi) n = Inr (self_u h)"
    and "linspace (- w / 2) (w / 2) n = Inr (self_v h)"
    and "length (self_u h) = nat n" and "length (self_v h) = nat n"
    and "meshgrid (self_u h) (self_v h) = (self_U h, self_V h)"
    and "self_mesh h = Some (map (\<lambda>v. map (\<lambda>u. pos_x R u v) (self_u h)) (self_v h),
                             map (\<lambda>v. map (\<lambda>u. pos_y R u v) (self_u h)) (self_v h),
                             map (\<lambda>v. map (\<lambda>u. pos_z u v) (self_u h)) (self_v h))"
  using init_handle [OF assms(1), of w R] assms(2) by (auto simp: meshgrid_def)

lemma compute_surface_area_eq:
  assumes n: "2 \<le> n" and h: "init R w n = Inr h"
  shows "compute_surface_area h = (Inr (surface_area_spec R w n), h)"
proof -
  define us where "us = self_u h"
  define vs where "vs = self_v h"
  define m where "m = nat (n - 1)"
  define dv where "dv = w / real_of_int (n - 1)"
  define du where "du = 2 * pi / real_of_int (n - 1)"
  define A where "A = map (\<lambda>v. map (\<lambda>u. area_integrand R u v) us) vs"
  have n0: "0 \<le> n" using n by simp
  note f = init_fields [OF n0 h, folded us_def vs_def]
  have len: "length us = Suc m" "length vs = Suc m" using f n by (simp_all add: m_def)
  have A: "elementwise (area_integrand R) (self_U h) (self_V h) = A"
    using f by (simp add: A_def elementwise_meshgrid)
  have Ane: "A \<noteq> []" using len by (auto simp: A_def)
  have rows: "\<forall>r \<in> set A. length r = Suc m" using len by (auto simp: A_def)
  have un: "us ! j = grid_point 0 (2 * pi) n j" if "j \<le> m" for j
  proof -
    have "j < nat n" using that n by (simp add: m_def)
    then show ?thesis by (rule linspace_nth [OF n _ f(4)])
  qed
  have vn: "vs ! i = grid_point (- w / 2) (w / 2) n i" if "i \<le> m" for i
  proof -
    have "i < nat n" using that n by (simp add: m_def)
    then show ?thesis by (rule linspace_nth [OF n _ f(5)])
  qed
  have inner: "trapz_axis0 A dv ! j
      = trapezoid dv (\<lambda>i. area_integrand R (grid_point 0 (2 * pi) n j)
                                           (grid_point (- w / 2) (w / 2) n i)) m"
    if "j \<le> m" for j
  proof -
    have "trapz_axis0 A dv ! j = trapz (map (\<lambda>r. r ! j) A) dv"
      using trapz_axis0_nth [OF Ane rows] that by simp
    also have "map (\<lambda>r. r ! j) A = map (\<lambda>v. area_integrand R (us ! j) v) vs"
      using that len by (simp add: A_def)
    also have "trapz \<dots> dv = trapezoid dv (\<lambda>i. area_integrand R (us ! j) (vs ! i)) m"
      unfolding trapz_sum trapezoid_def using len
      by (intro sum.cong) (simp_all add: add.commute)
    also have "\<dots> = trapezoid dv (\<lambda>i. area_integrand R (grid_point 0 (2 * pi) n j)
                                           (grid_point (- w / 2) (w / 2) n i)) m"
      unfolding trapezoid_def using that un vn by (intro sum.cong) simp_all
    finally show ?thesis .
  qed
  have "trapz (trapz_axis0 A dv) du = surface_area_spec R w n"
    unfolding trapz_sum surface_area_spec_def Let_def trapezoid_def [of du]
      m_def [symmetric] du_def [symmetric] dv_def [symmetric]
    using trapz_axis0_length [OF Ane rows, of dv] inner
    by (intro sum.cong) (simp_all add: add.commute)
  moreover have "self_n h - 1 \<noteq> 0" using f n by simp
  ultimately show ?thesis
    using f A by (simp add: compute_surface_area_def Let_def du_def dv_def)
qed

lemma edge_length_eq:
  assumes n: "2 \<le> n" and h: "init R w n = Inr h"
  shows "edge_length h (2 * pi / real_of_int (n - 1)) v = edge_spec R n v"
proof -
  define us where "us = self_u h"
  define m where "m = nat (n - 1)"
  have n0: "0 \<le> n" using n by simp
  note f = init_fields [OF n0 h, folded us_def]
  have len: "length us = Suc m" using f n by (simp add: m_def)
  have un: "us ! j = grid_point 0 (2 * pi) n j" if "j \<le> m" for j
  proof -
    have "j < nat n" using that n by (simp add: m_def)
    then show ?thesis by (rule linspace_nth [OF n _ f(4)])
  qed
  show ?thesis
    unfolding edge_length_def Let_def edge_spec_def trapz_sum trapezoid_def
      us_def [symmetric] m_def [symmetric]
    using f len un by (intro sum.cong) (simp_all add: add.commute)
qed

lemma compute_edge_length_eq:
  assumes n: "2 \<le> n" and h: "init R w n = Inr h"
  shows "compute_edge_length h = (Inr (edge_spec R n (w / 2) + edge_spec R n (- w / 2)), h)"
proof -
  have n0: "0 \<le> n" using n by simp
  note f = init_fields [OF n0 h]
  have "self_n h - 1 \<noteq> 0" using f n by simp
  then show ?thesis
    using f edge_length_eq [OF n h] by (simp add: compute_edge_length_def Let_def)
qed

subsection \<open>The operations leave the object as it is\<close>

lemma call_id: "call c h = h"
  by (cases c) (simp_all add: get_mesh_def compute_surface_area_def compute_edge_length_def Let_def)

lemma calls_id: "calls cs h = h"
  by (induction cs arbitrary: h) (simp_all add: call_id)

lemma measurements_at_one:
  assumes "init R w 1 = Inr h"
  shows "compute_surface_area h = (Inl ZeroDivisionError, h)"
    and "compute_edge_length h = (Inl ZeroDivisionError, h)"
  using init_fields(3) [OF _ assms]
  by (simp_all add: compute_surface_area_def compute_edge_length_def)

lemma grid_point_first: "grid_point a b n 0 = a"
  by (simp add: grid_point_def)

lemma grid_point_last: "2 \<le> n \<Longrightarrow> grid_point a b n (nat (n - 1)) = b"
  by (simp add: grid_point_def)

lemma grid_point_step:
  "grid_point a b n (Suc k) - grid_point a b n k = (b - a) / real_of_int (n - 1)"
proof -
  have "a + (1 + real k) * d - (a + real k * d) = d" for d :: real
    by (simp add: algebra_simps)
  from this [of "(b - a) / real_of_int (n - 1)"] show ?thesis
    unfolding grid_point_def of_nat_Suc .
qed

lemma init_grid:
  assumes n: "2 \<le> n" and h: "init R w n = Inr h" and k: "k \<le> nat (n - 1)"
  shows "self_u h ! k = grid_point 0 (2 * pi) n k"
    and "self_v h ! k = grid_point (- w / 2) (w / 2) n k"
proof -
  have n0: "0 \<le> n" using n by simp
  have kn: "k < nat n" using k n by simp
  show "self_u h ! k = grid_point 0 (2 * pi) n k"
    by (rule linspace_nth [OF n kn init_fields(4) [OF n0 h]])
  show "self_v h ! k = grid_point (- w / 2) (w / 2) n k"
    by (rule linspace_nth [OF n kn init_fields(5) [OF n0 h]])
qed

lemma init_grid_invariant:
  assumes n: "2 \<le> n" and h: "init R w n = Inr h"
  shows "grid_invariant w n h"
proof -
  have n0: "0 \<le> n" using n by simp
  have len: "length (self_u h) = Suc (nat (n - 1))" "length (self_v h) = Suc (nat (n - 1))"
    using init_fields(6,7) [OF n0 h] n by simp_all
  have step: "self_u h ! Suc k - self_u h ! k = 2 * pi / real_of_int (n - 1)"
             "self_v h ! Suc k - self_v h ! k = w / real_of_int (n - 1)"
    if "k < nat (n - 1)" for k
    using that init_grid [OF n h, of k] init_grid [OF n h, of "Suc k"]
    by (simp_all add: grid_point_step)
  show ?thesis
    unfolding grid_invariant_def Let_def
    using len step init_grid [OF n h, of 0] init_grid [OF n h, of "nat (n - 1)"]
      grid_point_last [OF n]
    by (simp add: grid_point_first)
qed

subsection \<open>The two measurements on the coarsest grids\<close>

lemma neg_minus_power2: "(- a - b)\<^sup>2 = (a + b)\<^sup>2" for a b :: real
  by (simp add: power2_eq_square algebra_simps)

lemma area_integrand_0: "area_integrand R 0 v = sqrt ((v / 2)\<^sup>2 + (R + v)\<^sup>2)"
  by (simp add: area_integrand_def x_u_def y_u_def z_u_def x_v_def y_v_def z_v_def
      neg_minus_power2)

lemma area_integrand_pi: "area_integrand R pi v = sqrt (R\<^sup>2 + (v / 2)\<^sup>2)"
  by (simp add: area_integrand_def x_u_def y_u_def z_u_def x_v_def y_v_def z_v_def
      neg_minus_power2)

lemma area_integrand_2pi: "area_integrand R (2 * pi) v = sqrt ((v / 2)\<^sup>2 + (R - v)\<^sup>2)"
  by (simp add: area_integrand_def x_u_def y_u_def z_u_def x_v_def y_v_def z_v_def
      neg_minus_power2 power2_commute)


lemma trapezoid_1: "trapezoid h f (Suc 0) = h * (f 0 + f (Suc 0)) / 2"
  by (simp add: trapezoid_def)

lemma trapezoid_2:
  "trapezoid h f (Suc (Suc 0)) = h * (f 0 + f (Suc 0)) / 2 + h * (f (Suc 0) + f (Suc (Suc 0))) / 2"
  by (simp add: trapezoid_def)

lemma surface_area_spec_2:
  "surface_area_spec R w 2
     = pi * w * (sqrt ((w / 4)\<^sup>2 + (R + w / 2)\<^sup>2) + sqrt ((w / 4)\<^sup>2 + (R - w / 2)\<^sup>2))"
proof -
  have a: "area_integrand R 0 (- w / 2) = sqrt ((w / 4)\<^sup>2 + (R - w / 2)\<^sup>2)"
    by (simp add: area_integrand_0 power2_eq_square)
  have b: "area_integrand R 0 (w / 2) = sqrt ((w / 4)\<^sup>2 + (R + w / 2)\<^sup>2)"
    by (simp add: area_integrand_0 power2_eq_square)
  have c: "area_integrand R (2 * pi) (- w / 2) = sqrt ((w / 4)\<^sup>2 + (R + w / 2)\<^sup>2)"
    by (simp add: area_integrand_2pi power2_eq_square)
  have d: "area_integrand R (2 * pi) (w / 2) = sqrt ((w / 4)\<^sup>2 + (R - w / 2)\<^sup>2)"
    by (simp add: area_integrand_2pi power2_eq_square)
  have g: "grid_point 0 (2 * pi) 2 0 = 0" "grid_point 0 (2 * pi) 2 (Suc 0) = 2 * pi"
          "grid_point (- w / 2) (w / 2) 2 0 = - w / 2" "grid_point (- w / 2) (w / 2) 2 (Suc 0) = w / 2"
    by (simp_all add: grid_point_def)
  have "surface_area_spec R w 2
      = trapezoid (2 * pi) (\<lambda>j. trapezoid w
           (\<lambda>i. area_integrand R (grid_point 0 (2 * pi) 2 j) (grid_point (- w / 2) (w / 2) 2 i))
           (Suc 0)) (Suc 0)"
    by (simp add: surface_area_spec_def)
  also have "\<dots> = 2 * pi * (w * (sqrt ((w / 4)\<^sup>2 + (R - w / 2)\<^sup>2) + sqrt ((w / 4)\<^sup>2 + (R + w / 2)\<^sup>2)) / 2
                         + w * (sqrt ((w / 4)\<^sup>2 + (R + w / 2)\<^sup>2) + sqrt ((w / 4)\<^sup>2 + (R - w / 2)\<^sup>2)) / 2) / 2"
    unfolding trapezoid_1 g a b c d ..
  also have "\<dots> = pi * w * (sqrt ((w / 4)\<^sup>2 + (R + w / 2)\<^sup>2) + sqrt ((w / 4)\<^sup>2 + (R - w / 2)\<^sup>2))"
    by (simp add: algebra_simps)
  finally show ?thesis .
qed


lemma trapezoid_3x3:
  "p * ((h * (b + r) / 2 + h * (r + a) / 2) + (h * (c + r) / 2 + h * (r + c) / 2)) / 2
     + p * ((h * (c + r) / 2 + h * (r + c) / 2) + (h * (a + r) / 2 + h * (r + b) / 2)) / 2
   = p * h * ((a + b) / 2 + c + 2 * r)" for p h a b c r :: real
  by (simp add: field_simps)

lemma surface_area_spec_3:
  "surface_area_spec R w 3
     = pi * (w / 2) * ((sqrt ((w / 4)\<^sup>2 + (R + w / 2)\<^sup>2) + sqrt ((w / 4)\<^sup>2 + (R - w / 2)\<^sup>2)) / 2
          + sqrt (R\<^sup>2 + (w / 4)\<^sup>2) + 2 * \<bar>R\<bar>)"
proof -
  let ?a = "sqrt ((w / 4)\<^sup>2 + (R + w / 2)\<^sup>2)"
  let ?b = "sqrt ((w / 4)\<^sup>2 + (R - w / 2)\<^sup>2)"
  let ?c = "sqrt (R\<^sup>2 + (w / 4)\<^sup>2)"
  have i0: "area_integrand R 0 (- w / 2) = ?b" "area_integrand R 0 0 = \<bar>R\<bar>"
           "area_integrand R 0 (w / 2) = ?a"
    by (simp_all add: area_integrand_0 power2_eq_square)
  have i1: "area_integrand R pi (- w / 2) = ?c" "area_integrand R pi 0 = \<bar>R\<bar>"
           "area_integrand R pi (w / 2) = ?c"
    by (simp_all add: area_integrand_pi power2_eq_square)
  have i2: "area_integrand R (2 * pi) (- w / 2) = ?a" "area_integrand R (2 * pi) 0 = \<bar>R\<bar>"
           "area_integrand R (2 * pi) (w / 2) = ?b"
    by (simp_all add: area_integrand_2pi power2_eq_square)
  have g: "grid_point 0 (2 * pi) 3 0 = 0" "grid_point 0 (2 * pi) 3 (Suc 0) = pi"
          "grid_point 0 (2 * pi) 3 (Suc (Suc 0)) = 2 * pi"
          "grid_point (- w / 2) (w / 2) 3 0 = - w / 2" "grid_point (- w / 2) (w / 2) 3 (Suc 0) = 0"
          "grid_point (- w / 2) (w / 2) 3 (Suc (Suc 0)) = w / 2"
    by (simp_all add: grid_point_def)
  have "surface_area_spec R w 3
      = trapezoid pi (\<lambda>j. trapezoid (w / 2)
           (\<lambda>i. area_integrand R (grid_point 0 (2 * pi) 3 j) (grid_point (- w / 2) (w / 2) 3 i))
           (Suc (Suc 0))) (Suc (Suc 0))"
    by (simp add: surface_area_spec_def numeral_2_eq_2)
  also have "\<dots> = pi * ((w / 2 * (?b + \<bar>R\<bar>) / 2 + w / 2 * (\<bar>R\<bar> + ?a) / 2)
                        + (w / 2 * (?c + \<bar>R\<bar>) / 2 + w / 2 * (\<bar>R\<bar> + ?c) / 2)) / 2
                  + pi * ((w / 2 * (?c + \<bar>R\<bar>) / 2 + w / 2 * (\<bar>R\<bar> + ?c) / 2)
                        + (w / 2 * (?a + \<bar>R\<bar>) / 2 + w / 2 * (\<bar>R\<bar> + ?b) / 2)) / 2"
    unfolding trapezoid_2 g i0 i1 i2 ..
  also have "\<dots> = pi * (w / 2) * ((?a + ?b) / 2 + ?c + 2 * \<bar>R\<bar>)"
    by (rule trapezoid_3x3)
  finally show ?thesis .
qed

subsection \<open>Signs and a comparison of the two coarsest estimates\<close>

lemma surface_area_of_eq:
  assumes "2 \<le> n"
  shows "surface_area_of R w n = Inr (surface_area_spec R w n)"
proof -
  obtain h where h: "init R w n = Inr h"
    using init_handle [of n w R] assms by auto
  show ?thesis
    using h compute_surface_area_eq [OF assms h] by (simp add: surface_area_of_def)
qed

lemma edge_length_of_eq:
  assumes "2 \<le> n"
  shows "edge_length_of R w n = Inr (edge_spec R n (w / 2) + edge_spec R n (- w / 2))"
proof -
  obtain h where h: "init R w n = Inr h"
    using init_handle [of n w R] assms by auto
  show ?thesis
    using h compute_edge_length_eq [OF assms h] by (simp add: edge_length_of_def)
qed

lemma trapezoid_nonneg:
  assumes "0 \<le> h" and "\<And>k. 0 \<le> f k"
  shows "0 \<le> trapezoid h f m"
  unfolding trapezoid_def
  by (intro sum_nonneg divide_nonneg_nonneg mult_nonneg_nonneg add_nonneg_nonneg assms) simp

lemma area_integrand_nonneg: "0 \<le> area_integrand R u v"
  by (simp add: area_integrand_def)

lemma arc_integrand_nonneg: "0 \<le> arc_integrand R v u"
  by (simp add: arc_integrand_def)

lemma surface_area_spec_nonneg:
  assumes "0 \<le> w" and "2 \<le> n"
  shows "0 \<le> surface_area_spec R w n"
  unfolding surface_area_spec_def Let_def
  using assms
  by (intro trapezoid_nonneg divide_nonneg_nonneg mult_nonneg_nonneg area_integrand_nonneg)
    simp_all

lemma edge_spec_nonneg:
  assumes "2 \<le> n"
  shows "0 \<le> edge_spec R n v"
  unfolding edge_spec_def
  using assms
  by (intro trapezoid_nonneg divide_nonneg_nonneg mult_nonneg_nonneg arc_integrand_nonneg)
    simp_all

lemma area_3_1_2: "surface_area_spec 3 1 2 = pi * (sqrt (197 / 16) + sqrt (101 / 16))"
  unfolding surface_area_spec_2 by (simp add: power2_eq_square)

lemma area_3_1_3:
  "surface_area_spec 3 1 3
     = pi * (1 / 2) * ((sqrt (197 / 16) + sqrt (101 / 16)) / 2 + sqrt (145 / 16) + 6)"
  unfolding surface_area_spec_3 by (simp add: power2_eq_square)

lemma sqrt_bounds:
  "3508 / 1000 < sqrt (197 / 16)" "2512 / 1000 < sqrt (101 / 16)" "sqrt (145 / 16) < 3011 / 1000"
  by (rule real_less_rsqrt, simp add: power2_eq_square)
     (rule real_less_rsqrt, simp add: power2_eq_square,
      rule real_less_lsqrt, simp_all add: power2_eq_square)

lemma coarse_bound:
  "3508 / 1000 < a \<Longrightarrow> 2512 / 1000 < b \<Longrightarrow> c < 3011 / 1000 \<Longrightarrow>
     (1 / 2) * ((a + b) / 2 + c + 6) < a + b" for a b c :: real
  by (simp add: field_simps)

lemma area_3_lt_2:
  "pi * (1 / 2) * ((sqrt (197 / 16) + sqrt (101 / 16)) / 2 + sqrt (145 / 16) + 6)
     < pi * (sqrt (197 / 16) + sqrt (101 / 16))"
proof -
  have "(1 / 2) * ((sqrt (197 / 16) + sqrt (101 / 16)) / 2 + sqrt (145 / 16) + 6)
      < sqrt (197 / 16) + sqrt (101 / 16)"
    by (rule coarse_bound [OF sqrt_bounds])
  then have "pi * ((1 / 2) * ((sqrt (197 / 16) + sqrt (101 / 16)) / 2 + sqrt (145 / 16) + 6))
      < pi * (sqrt (197 / 16) + sqrt (101 / 16))"
    by (rule mult_strict_left_mono) (rule pi_gt_zero)
  then show ?thesis by (simp only: mult.assoc)
qed

subsection \<open>The symmetry of the two edges and the strip of width zero\<close>

lemma trapezoid_rev: "trapezoid h (\<lambda>k. f (m - k)) m = trapezoid h f m"
proof -
  let ?g = "\<lambda>k. h * (f k + f (Suc k)) / 2"
  have "trapezoid h (\<lambda>k. f (m - k)) m = (\<Sum>k<m. ?g (m - Suc k))"
    unfolding trapezoid_def
  proof (rule sum.cong)
    fix k assume "k \<in> {..<m}"
    then have "Suc (m - Suc k) = m - k" by auto
    then show "h * (f (m - k) + f (m - Suc k)) / 2 = ?g (m - Suc k)"
      by (simp add: add.commute)
  qed simp
  also have "\<dots> = (\<Sum>k<m. ?g k)" by (rule sum.nat_diff_reindex)
  finally show ?thesis by (simp add: trapezoid_def)
qed

lemma half_turn: "(2 * pi - u) / 2 = pi - u / 2" for u :: real
  by (simp add: field_simps)

lemma sin_full_minus: "sin (2 * pi - u) = - sin u"
  using sin_periodic [of "- u"] by (simp add: algebra_simps)

lemma cos_full_minus: "cos (2 * pi - u) = cos u"
  using cos_periodic [of "- u"] by (simp add: algebra_simps)

lemma arc_integrand_reflect: "arc_integrand R (- v) (2 * pi - u) = arc_integrand R v u"
proof -
  have x: "x_u R (2 * pi - u) (- v) = - x_u R u v"
    unfolding x_u_def half_turn sin_full_minus cos_full_minus cos_pi_minus sin_pi_minus
    by (simp add: algebra_simps)
  have y: "y_u R (2 * pi - u) (- v) = y_u R u v"
    unfolding y_u_def half_turn sin_full_minus cos_full_minus cos_pi_minus sin_pi_minus
    by (simp add: algebra_simps)
  have z: "z_u (2 * pi - u) (- v) = z_u u v"
    unfolding z_u_def half_turn cos_pi_minus by simp
  show ?thesis by (simp add: arc_integrand_def x y z)
qed

lemma grid_point_reflect:
  assumes "2 \<le> n" and "k \<le> nat (n - 1)"
  shows "grid_point 0 (2 * pi) n (nat (n - 1) - k) = 2 * pi - grid_point 0 (2 * pi) n k"
proof -
  have m: "real (nat (n - 1)) = real_of_int (n - 1)" using assms(1) by simp
  have ne: "real_of_int (n - 1) \<noteq> 0" using assms(1) by simp
  have "real (nat (n - 1) - k) = real_of_int (n - 1) - real k"
    using assms(2) m by (simp add: of_nat_diff)
  then show ?thesis using ne by (simp add: grid_point_def field_simps)
qed

lemma edge_spec_symmetric:
  assumes "2 \<le> n"
  shows "edge_spec R n (- v) = edge_spec R n v"
proof -
  let ?m = "nat (n - 1)"
  let ?du = "2 * pi / real_of_int (n - 1)"
  have "edge_spec R n (- v)
      = trapezoid ?du (\<lambda>k. arc_integrand R (- v) (grid_point 0 (2 * pi) n (?m - k))) ?m"
    unfolding edge_spec_def
    by (rule trapezoid_rev [of ?du "\<lambda>j. arc_integrand R (- v) (grid_point 0 (2 * pi) n j)" ?m,
          symmetric])
  also have "\<dots> = trapezoid ?du (\<lambda>k. arc_integrand R v (grid_point 0 (2 * pi) n k)) ?m"
    unfolding trapezoid_def
  proof (rule sum.cong)
    fix k assume "k \<in> {..<?m}"
    then have k: "k \<le> ?m" "Suc k \<le> ?m" by auto
    show "?du * (arc_integrand R (- v) (grid_point 0 (2 * pi) n (?m - k))
                + arc_integrand R (- v) (grid_point 0 (2 * pi) n (?m - Suc k))) / 2
        = ?du * (arc_integrand R v (grid_point 0 (2 * pi) n k)
                + arc_integrand R v (grid_point 0 (2 * pi) n (Suc k))) / 2"
      by (simp only: grid_point_reflect [OF assms k(1)] grid_point_reflect [OF assms k(2)]
          arc_integrand_reflect)
  qed simp
  finally show ?thesis by (simp add: edge_spec_def)
qed






subsection \<open>The range of float64: values\<close>

text \<open>
  The value component of the range-checked evaluation is the value of the evaluation
  over the real numbers.
\<close>

lemma fst_lit [simp]: "fst (lit x) = x"
  by (simp add: lit_def)

lemma snd_lit [simp]: "snd (lit x) = in_range x"
  by (simp add: lit_def)

lemma fst_f_op1 [simp]: "fst (f_op1 g a) = g (fst a)"
  by (simp add: f_op1_def)

lemma fst_f_op2 [simp]: "fst (f_op2 g a b) = g (fst a) (fst b)"
  by (simp add: f_op2_def)

lemma snd_f_op1: "snd (f_op1 g a) \<longleftrightarrow> snd a \<and> in_range (g (fst a))"
  by (simp add: f_op1_def)

lemma snd_f_op2: "snd (f_op2 g a b) \<longleftrightarrow> snd a \<and> snd b \<and> in_range (g (fst a) (fst b))"
  by (simp add: f_op2_def)

lemma fst_derivatives_f64:
  "fst (x_u_f64 R u v) = x_u (fst R) (fst u) (fst v)"
  "fst (y_u_f64 R u v) = y_u (fst R) (fst u) (fst v)"
  "fst (z_u_f64 u v) = z_u (fst u) (fst v)"
  "fst (x_v_f64 u) = x_v (fst u)"
  "fst (y_v_f64 u) = y_v (fst u)"
  "fst (z_v_f64 u) = z_v (fst u)"
  by (simp_all add: x_u_f64_def y_u_f64_def z_u_f64_def x_v_f64_def y_v_f64_def z_v_f64_def
      x_u_def y_u_def z_u_def x_v_def y_v_def z_v_def)

lemma fst_area_integrand_f64:
  "fst (area_integrand_f64 R u v) = area_integrand (fst R) (fst u) (fst v)"
  by (simp add: area_integrand_f64_def area_integrand_def fst_derivatives_f64)

lemma fst_arc_integrand_f64:
  "fst (arc_integrand_f64 R v u) = arc_integrand (fst R) (fst v) (fst u)"
  by (simp add: arc_integrand_f64_def arc_integrand_def fst_derivatives_f64)

lemma fst_f_sum: "fst (f_sum xs) = sum_list (map fst xs)"
  unfolding f_sum_def by (induction xs) simp_all

lemma map_fst_map2:
  "map fst (map2 (\<lambda>a b. f a b) xs ys) = map2 (\<lambda>a b. fst (f a b)) xs ys"
  by auto

lemma map2_map_map:
  "map2 (\<lambda>a b. g (f a) (f b)) xs ys = map2 g (map f xs) (map f ys)"
  by (auto simp add: zip_map_map)

lemma fst_trapz_f64: "fst (trapz_f64 y dx) = trapz (map fst y) (fst dx)"
  unfolding trapz_f64_def trapz_def fst_f_sum map_tl [symmetric] map_butlast [symmetric]
  by (auto simp add: zip_map_map intro!: arg_cong [where f = sum_list])

lemma map_fst_sum_axis0_f64:
  "map fst (sum_axis0_f64 k rows) = sum_axis0 k (map (map fst) rows)"
  unfolding sum_axis0_f64_def sum_axis0_def
proof (induction rows)
  case Nil
  show ?case by simp
next
  case (Cons r rows)
  have "map fst (map2 f_add r acc) = map2 (+) (map fst r) (map fst acc)" for acc
    by (auto simp add: zip_map_map)
  then show ?case using Cons by simp
qed

lemma map_fst_trapz_axis0_f64:
  "map fst (trapz_axis0_f64 y dx) = trapz_axis0 (map (map fst) y) (fst dx)"
proof -
  have k: "(case y of [] \<Rightarrow> 0 | r # _ \<Rightarrow> length r) = ncols (map (map fst) y)"
    by (cases y) (simp_all add: ncols_def)
  have rows: "map (map fst)
                (map2 (\<lambda>ra rb. map2 (\<lambda>a b. f_div (f_mul dx (f_add a b)) (lit 2)) ra rb) (tl y) (butlast y))
            = map2 (\<lambda>ra rb. map2 (\<lambda>a b. fst dx * (a + b) / 2) ra rb)
                (tl (map (map fst) y)) (butlast (map (map fst) y))"
    unfolding map_tl [symmetric] map_butlast [symmetric]
    by (auto simp add: zip_map_map)
  show ?thesis
    unfolding trapz_axis0_f64_def trapz_axis0_def map_fst_sum_axis0_f64 k rows ..
qed

subsection \<open>The range of float64: bounds on one operation\<close>

text \<open>
  Every power of two up to \<open>2 ^ 1023\<close> is in range, so a bound of each intermediate
  result by a power of two is enough.
\<close>

lemma float64_max_ge: "2 ^ 1023 \<le> float64_max"
proof -
  have "(1::real) \<le> 2 - 1 / 2 ^ 52" by simp
  then have "1 * (2::real) ^ 1023 \<le> (2 - 1 / 2 ^ 52) * 2 ^ 1023"
    by (rule mult_right_mono) simp
  then show ?thesis by (simp only: float64_max_def mult_1)
qed

lemma in_range_pow:
  assumes "\<bar>x\<bar> \<le> 2 ^ k" and "k \<le> 1023"
  shows "in_range x"
proof -
  have "(2::real) ^ k \<le> 2 ^ 1023" using assms(2) by (intro power_increasing) simp_all
  then show ?thesis using assms(1) float64_max_ge unfolding in_range_def by linarith
qed

lemma fits_lit: "\<bar>x\<bar> \<le> 2 ^ k \<Longrightarrow> k \<le> 1023 \<Longrightarrow> fits k (lit x)"
  by (simp add: fits_def in_range_pow)

lemma fits_mono:
  assumes "fits j a" and "j \<le> k" and "k \<le> 1023"
  shows "fits k a"
proof -
  have "(2::real) ^ j \<le> 2 ^ k" using assms(2) by (intro power_increasing) simp_all
  then show ?thesis using assms unfolding fits_def by linarith
qed

lemma fits_op1:
  assumes "fits j a" and "\<bar>g (fst a)\<bar> \<le> 2 ^ k" and "k \<le> 1023"
  shows "fits k (f_op1 g a)"
  using assms by (simp add: fits_def snd_f_op1 in_range_pow)

lemma fits_op2:
  assumes "fits i a" and "fits j b" and "\<bar>g (fst a) (fst b)\<bar> \<le> 2 ^ k" and "k \<le> 1023"
  shows "fits k (f_op2 g a b)"
  using assms by (simp add: fits_def snd_f_op2 in_range_pow)

lemma fits_add:
  assumes "fits k a" and "fits k b" and "k < 1023"
  shows "fits (Suc k) (f_add a b)"
proof (rule fits_op2 [OF assms(1,2)])
  show "\<bar>fst a + fst b\<bar> \<le> 2 ^ Suc k"
    using assms(1,2) unfolding fits_def by (simp add: abs_le_iff)
  show "Suc k \<le> 1023" using assms(3) by simp
qed

lemma fits_sub:
  assumes "fits k a" and "fits k b" and "k < 1023"
  shows "fits (Suc k) (f_sub a b)"
proof (rule fits_op2 [OF assms(1,2)])
  show "\<bar>fst a - fst b\<bar> \<le> 2 ^ Suc k"
    using assms(1,2) unfolding fits_def by (simp add: abs_le_iff)
  show "Suc k \<le> 1023" using assms(3) by simp
qed

lemma fits_mul:
  assumes "fits j a" and "fits k b" and "j + k \<le> 1023"
  shows "fits (j + k) (f_mul a b)"
proof (rule fits_op2 [OF assms(1,2) _ assms(3)])
  have "\<bar>fst a\<bar> * \<bar>fst b\<bar> \<le> 2 ^ j * 2 ^ k"
    using assms(1,2) unfolding fits_def by (intro mult_mono) simp_all
  then show "\<bar>fst a * fst b\<bar> \<le> 2 ^ (j + k)"
    by (simp add: abs_mult power_add)
qed

lemma fits_neg: "fits k a \<Longrightarrow> fits k (f_neg a)"
  by (rule fits_op1 [where j = k]) (simp_all add: fits_def)

lemma fits_half: "fits k a \<Longrightarrow> fits k (f_div a (lit 2))"
proof (rule fits_op2 [where i = k and j = 1])
  assume a: "fits k a"
  show "fits k a" by (rule a)
  show "fits 1 (lit 2)" by (rule fits_lit) simp_all
  have "\<bar>fst a\<bar> \<le> 2 ^ k" using a by (simp add: fits_def)
  moreover have "\<bar>fst a / 2\<bar> \<le> \<bar>fst a\<bar>" by simp
  ultimately have "\<bar>fst a / 2\<bar> \<le> 2 ^ k" by (rule order_trans [rotated])
  then show "\<bar>fst a / fst (lit 2)\<bar> \<le> 2 ^ k" by (simp only: fst_lit)
  show "k \<le> 1023" using a by (simp add: fits_def)
qed

lemma fits_cos: "fits k a \<Longrightarrow> fits 0 (f_cos a)"
  by (rule fits_op1 [where j = k]) simp_all

lemma fits_sin: "fits k a \<Longrightarrow> fits 0 (f_sin a)"
  by (rule fits_op1 [where j = k]) simp_all

lemma fits_sqr:
  assumes "fits k a" and "2 * k \<le> 1023"
  shows "fits (2 * k) (f_sqr a)"
proof (rule fits_op1 [OF assms(1) _ assms(2)])
  have "\<bar>fst a\<bar>\<^sup>2 \<le> (2 ^ k)\<^sup>2"
    using assms(1) unfolding fits_def by (intro power_mono) simp_all
  then show "\<bar>(fst a)\<^sup>2\<bar> \<le> 2 ^ (2 * k)"
    by (simp add: power_mult mult.commute power2_eq_square power_mult_distrib)
qed

lemma fits_sqrt:
  assumes "fits (2 * k) a"
  shows "fits k (f_sqrt a)"
proof (rule fits_op1 [OF assms])
  have "sqrt \<bar>fst a\<bar> \<le> sqrt (2 ^ (2 * k))"
    using assms unfolding fits_def by (intro real_sqrt_le_mono) simp
  also have "sqrt (2 ^ (2 * k)) = 2 ^ k"
    by (simp add: power_mult real_sqrt_power [symmetric] power2_eq_square [symmetric] mult.commute)
  finally show "\<bar>sqrt (fst a)\<bar> \<le> 2 ^ k" by (simp only: real_sqrt_abs')
  show "k \<le> 1023" using assms by (simp add: fits_def)
qed

lemma derivatives_fit:
  assumes R: "fits 500 R" and u: "fits 3 u" and v: "fits 500 v"
  shows "fits 502 (x_u_f64 R u v)" and "fits 502 (y_u_f64 R u v)" and "fits 500 (z_u_f64 u v)"
    and "fits 0 (x_v_f64 u)" and "fits 0 (y_v_f64 u)" and "fits 0 (z_v_f64 u)"
proof -
  let ?h = "f_div u (lit 2)"
  have h: "fits 3 ?h" by (rule fits_half [OF u])
  have c2: "fits 0 (f_cos ?h)" by (rule fits_cos [OF h])
  have s2: "fits 0 (f_sin ?h)" by (rule fits_sin [OF h])
  have cu: "fits 0 (f_cos u)" by (rule fits_cos [OF u])
  have su: "fits 0 (f_sin u)" by (rule fits_sin [OF u])
  have vc: "fits 500 (f_mul v (f_cos ?h))" using fits_mul [OF v c2] by simp
  have rv: "fits 501 (f_add R (f_mul v (f_cos ?h)))" using fits_add [OF R vc] by simp
  have nrv: "fits 501 (f_neg (f_add R (f_mul v (f_cos ?h))))" by (rule fits_neg [OF rv])
  have vh: "fits 500 (f_div v (lit 2))" by (rule fits_half [OF v])
  have vs: "fits 500 (f_mul (f_div v (lit 2)) (f_sin ?h))" using fits_mul [OF vh s2] by simp
  have x1: "fits 501 (f_mul (f_neg (f_add R (f_mul v (f_cos ?h)))) (f_sin u))"
    using fits_mul [OF nrv su] by simp
  have x2: "fits 501 (f_mul (f_mul (f_div v (lit 2)) (f_sin ?h)) (f_cos u))"
    using fits_mono [OF fits_mul [OF vs cu], of 501] by simp
  show "fits 502 (x_u_f64 R u v)"
    unfolding x_u_f64_def using fits_sub [OF x1 x2] by simp
  have y1: "fits 501 (f_mul (f_add R (f_mul v (f_cos ?h))) (f_cos u))"
    using fits_mul [OF rv cu] by simp
  have y2: "fits 501 (f_mul (f_mul (f_div v (lit 2)) (f_sin ?h)) (f_sin u))"
    using fits_mono [OF fits_mul [OF vs su], of 501] by simp
  show "fits 502 (y_u_f64 R u v)"
    unfolding y_u_f64_def using fits_sub [OF y1 y2] by simp
  show "fits 500 (z_u_f64 u v)"
    unfolding z_u_f64_def using fits_mul [OF vh c2] by simp
  show "fits 0 (x_v_f64 u)"
    unfolding x_v_f64_def using fits_mul [OF c2 cu] by simp
  show "fits 0 (y_v_f64 u)"
    unfolding y_v_f64_def using fits_mul [OF c2 su] by simp
  show "fits 0 (z_v_f64 u)"
    unfolding z_v_f64_def by (rule s2)
qed

lemma cross_component_fits:
  assumes "fits i a" and "fits j b" and "fits k c" and "fits l d"
    and "i + j \<le> 502" and "k + l \<le> 502"
  shows "fits 1006 (f_sqr (f_sub (f_mul a b) (f_mul c d)))"
proof -
  have ab: "fits 502 (f_mul a b)"
    using fits_mono [OF fits_mul [OF assms(1,2)], of 502] assms(5) by simp
  have cd: "fits 502 (f_mul c d)"
    using fits_mono [OF fits_mul [OF assms(3,4)], of 502] assms(6) by simp
  have "fits 503 (f_sub (f_mul a b) (f_mul c d))"
    using fits_sub [OF ab cd] by simp
  then show ?thesis using fits_sqr [of 503] by simp
qed

lemma area_integrand_fits:
  assumes R: "fits 500 R" and u: "fits 3 u" and v: "fits 500 v"
  shows "fits 504 (area_integrand_f64 R u v)"
proof -
  note d = derivatives_fit [OF assms]
  have c1: "fits 1006 (f_sqr (f_sub (f_mul (y_u_f64 R u v) (z_v_f64 u)) (f_mul (z_u_f64 u v) (y_v_f64 u))))"
    by (rule cross_component_fits [OF d(2) d(6) d(3) d(5)]) simp_all
  have c2: "fits 1006 (f_sqr (f_sub (f_mul (z_u_f64 u v) (x_v_f64 u)) (f_mul (x_u_f64 R u v) (z_v_f64 u))))"
    by (rule cross_component_fits [OF d(3) d(4) d(1) d(6)]) simp_all
  have c3: "fits 1006 (f_sqr (f_sub (f_mul (x_u_f64 R u v) (y_v_f64 u)) (f_mul (y_u_f64 R u v) (x_v_f64 u))))"
    by (rule cross_component_fits [OF d(1) d(5) d(2) d(4)]) simp_all
  have s12: "fits 1007 (f_add
      (f_sqr (f_sub (f_mul (y_u_f64 R u v) (z_v_f64 u)) (f_mul (z_u_f64 u v) (y_v_f64 u))))
      (f_sqr (f_sub (f_mul (z_u_f64 u v) (x_v_f64 u)) (f_mul (x_u_f64 R u v) (z_v_f64 u)))))"
    using fits_add [OF c1 c2] by simp
  have c3': "fits 1007 (f_sqr (f_sub (f_mul (x_u_f64 R u v) (y_v_f64 u)) (f_mul (y_u_f64 R u v) (x_v_f64 u))))"
    by (rule fits_mono [OF c3]) simp_all
  show ?thesis
    unfolding area_integrand_f64_def
    using fits_sqrt [of 504] fits_add [OF s12 c3'] by simp
qed

lemma arc_integrand_fits:
  assumes R: "fits 500 R" and u: "fits 3 u" and v: "fits 500 v"
  shows "fits 504 (arc_integrand_f64 R v u)"
proof -
  note d = derivatives_fit [OF assms]
  have x: "fits 1006 (f_sqr (x_u_f64 R u v))"
    using fits_mono [OF fits_sqr [OF d(1)], of 1006] by simp
  have y: "fits 1006 (f_sqr (y_u_f64 R u v))"
    using fits_mono [OF fits_sqr [OF d(2)], of 1006] by simp
  have z: "fits 1007 (f_sqr (z_u_f64 u v))"
    using fits_mono [OF fits_sqr [OF d(3)], of 1007] by simp
  have xy: "fits 1007 (f_add (f_sqr (x_u_f64 R u v)) (f_sqr (y_u_f64 R u v)))"
    using fits_add [OF x y] by simp
  show ?thesis
    unfolding arc_integrand_f64_def
    using fits_sqrt [of 504] fits_add [OF xy z] by simp
qed

subsection \<open>The range of float64: the trapezoid sums\<close>

text \<open>
  A sum of non-negative terms stays in range when its total does, whatever the partial
  sums are.
\<close>

lemma float64_max_nonneg: "0 \<le> float64_max"
  using float64_max_ge by (rule order_trans [rotated]) simp

lemma in_range_nonneg: "0 \<le> x \<Longrightarrow> x \<le> float64_max \<Longrightarrow> in_range x"
  by (simp add: in_range_def)

lemma sum_list_upper:
  "\<forall>x \<in> set xs. f x \<le> c \<Longrightarrow> sum_list (map f xs) \<le> real (length xs) * c" for c :: real
  by (induction xs) (auto simp add: algebra_simps)

lemma sum_list_fst_nonneg:
  "\<forall>t \<in> set ts. 0 \<le> fst t \<Longrightarrow> 0 \<le> sum_list (map fst ts)" for ts :: "f64 list"
  by (induction ts) auto

lemma f_sum_in_range:
  assumes "\<forall>x \<in> set xs. snd x \<and> 0 \<le> fst x" and "sum_list (map fst xs) \<le> float64_max"
  shows "snd (f_sum xs)"
  using assms
proof (induction xs)
  case Nil
  show ?case by (simp add: f_sum_def in_range_def float64_max_nonneg)
next
  case (Cons x xs)
  have nn: "0 \<le> sum_list (map fst xs)" using Cons.prems(1) by (intro sum_list_fst_nonneg) simp
  have x: "snd x" "0 \<le> fst x" using Cons.prems(1) by simp_all
  have rest: "snd (f_sum xs)"
    using Cons.prems x(2) by (intro Cons.IH) simp_all
  have "in_range (fst x + sum_list (map fst xs))"
    using Cons.prems(2) x(2) nn by (intro in_range_nonneg) simp_all
  then show ?case
    using x(1) rest fst_f_sum [of xs] by (simp add: f_sum_def snd_f_op2)
qed

lemma trapz_term_in_range:
  assumes a: "snd a \<and> 0 \<le> fst a \<and> fst a \<le> M" and b: "snd b \<and> 0 \<le> fst b \<and> fst b \<le> M"
    and d: "snd d" "0 \<le> fst d"
    and c1: "2 * M \<le> float64_max" and c2: "fst d * (2 * M) \<le> float64_max"
  shows "snd (f_div (f_mul d (f_add a b)) (lit 2)) \<and>
         0 \<le> fst (f_div (f_mul d (f_add a b)) (lit 2)) \<and>
         fst (f_div (f_mul d (f_add a b)) (lit 2)) \<le> fst d * M"
proof -
  have s0: "0 \<le> fst a + fst b" and s1: "fst a + fst b \<le> 2 * M" using a b by simp_all
  have p0: "0 \<le> fst d * (fst a + fst b)" using d(2) s0 by simp
  have p1: "fst d * (fst a + fst b) \<le> fst d * (2 * M)" using s1 d(2) by (rule mult_left_mono)
  have r1: "in_range (fst a + fst b)" using s0 s1 c1 by (intro in_range_nonneg) simp_all
  have r2: "in_range (fst d * (fst a + fst b))" using p0 p1 c2 by (intro in_range_nonneg) simp_all
  have r3: "in_range 2" using float64_max_ge by (simp add: in_range_def) 
  have r4: "in_range (fst d * (fst a + fst b) / 2)" using p0 p1 c2 by (intro in_range_nonneg) simp_all
  show ?thesis using a b d(1) r1 r2 r3 r4 p0 p1 by (simp add: snd_f_op2)
qed

lemma trapz_f64_in_range:
  assumes ys: "\<forall>y \<in> set ys. snd y \<and> 0 \<le> fst y \<and> fst y \<le> M"
    and d: "snd d" "0 \<le> fst d"
    and c1: "2 * M \<le> float64_max" and c2: "fst d * (2 * M) \<le> float64_max"
    and c3: "real (length ys - 1) * (fst d * M) \<le> T" and c4: "T \<le> float64_max"
  shows "snd (trapz_f64 ys d) \<and> 0 \<le> fst (trapz_f64 ys d) \<and> fst (trapz_f64 ys d) \<le> T"
proof -
  let ?ts = "map2 (\<lambda>a b. f_div (f_mul d (f_add a b)) (lit 2)) (tl ys) (butlast ys)"
  have t: "snd t \<and> 0 \<le> fst t \<and> fst t \<le> fst d * M" if tt: "t \<in> set ?ts" for t
  proof -
    obtain p where p: "p \<in> set (zip (tl ys) (butlast ys))"
      and tp: "t = (\<lambda>(a, b). f_div (f_mul d (f_add a b)) (lit 2)) p"
      using tt [unfolded set_map] by (rule imageE)
    obtain a b where pab: "p = (a, b)" by (cases p)
    have ab: "(a, b) \<in> set (zip (tl ys) (butlast ys))" using p pab by simp
    have t: "t = f_div (f_mul d (f_add a b)) (lit 2)" using tp pab by simp
    have "a \<in> set ys" using ab by (metis in_set_zipE list.set_sel(2) tl_Nil)
    moreover have "b \<in> set ys" using ab by (metis in_set_zipE in_set_butlastD)
    ultimately show ?thesis
      unfolding t using ys by (intro trapz_term_in_range d c1 c2) simp_all
  qed
  have len: "length ?ts = length ys - 1" by simp
  have "sum_list (map fst ?ts) \<le> real (length ?ts) * (fst d * M)"
    by (rule sum_list_upper) (use t in blast)
  then have up: "sum_list (map fst ?ts) \<le> T" using c3 unfolding len by linarith
  have nn: "0 \<le> sum_list (map fst ?ts)" by (rule sum_list_fst_nonneg) (use t in blast)
  have "sum_list (map fst ?ts) \<le> float64_max" using up c4 by linarith
  moreover have "\<forall>t \<in> set ?ts. snd t \<and> 0 \<le> fst t" using t by blast
  ultimately have "snd (f_sum ?ts)" by (rule f_sum_in_range [rotated])
  then show ?thesis
    using up nn unfolding trapz_f64_def fst_f_sum by simp
qed

lemma sum_axis0_f64_in_range:
  assumes "\<forall>r \<in> set rows. \<forall>x \<in> set r. snd x \<and> 0 \<le> fst x \<and> fst x \<le> E"
    and "0 \<le> E" and "real (length rows) * E \<le> float64_max"
  shows "\<forall>x \<in> set (sum_axis0_f64 k rows). snd x \<and> 0 \<le> fst x \<and> fst x \<le> real (length rows) * E"
  using assms
proof (induction rows)
  case Nil
  show ?case by (simp add: sum_axis0_f64_def in_range_def float64_max_nonneg)
next
  case (Cons r rows)
  have le: "real (length rows) * E \<le> float64_max"
    using Cons.prems(2,3) by (simp add: algebra_simps) 
  have ih: "\<forall>x \<in> set (sum_axis0_f64 k rows). snd x \<and> 0 \<le> fst x \<and> fst x \<le> real (length rows) * E"
    using Cons.prems le by (intro Cons.IH) simp_all
  have step: "sum_axis0_f64 k (r # rows) = map2 f_add r (sum_axis0_f64 k rows)"
    by (simp add: sum_axis0_f64_def)
  show ?case
  proof
    fix z assume "z \<in> set (sum_axis0_f64 k (r # rows))"
    then obtain p where p: "p \<in> set (zip r (sum_axis0_f64 k rows))"
      and zp: "z = (\<lambda>(a, b). f_add a b) p"
      unfolding step set_map by (rule imageE)
    obtain x y where pxy: "p = (x, y)" by (cases p)
    have xy: "(x, y) \<in> set (zip r (sum_axis0_f64 k rows))" using p pxy by simp
    have z: "z = f_add x y" using zp pxy by simp
    have x: "snd x \<and> 0 \<le> fst x \<and> fst x \<le> E"
      using xy Cons.prems(1) by (auto dest: set_zip_leftD)
    have y: "snd y \<and> 0 \<le> fst y \<and> fst y \<le> real (length rows) * E"
      using xy ih by (auto dest: set_zip_rightD)
    have up: "fst x + fst y \<le> real (length (r # rows)) * E"
      using x y by (simp add: algebra_simps)
    have "in_range (fst x + fst y)"
      using x y up Cons.prems(3) by (intro in_range_nonneg) simp_all
    then show "snd z \<and> 0 \<le> fst z \<and> fst z \<le> real (length (r # rows)) * E"
      unfolding z using x y up by (simp add: snd_f_op2)
  qed
qed

lemma trapz_axis0_f64_in_range:
  assumes A: "\<forall>r \<in> set A. \<forall>x \<in> set r. snd x \<and> 0 \<le> fst x \<and> fst x \<le> M"
    and d: "snd d" "0 \<le> fst d" and M: "0 \<le> M"
    and c1: "2 * M \<le> float64_max" and c2: "fst d * (2 * M) \<le> float64_max"
    and c3: "real (length A - 1) * (fst d * M) \<le> T" and c4: "T \<le> float64_max"
  shows "\<forall>s \<in> set (trapz_axis0_f64 A d). snd s \<and> 0 \<le> fst s \<and> fst s \<le> T"
proof -
  let ?rows = "map2 (\<lambda>ra rb. map2 (\<lambda>a b. f_div (f_mul d (f_add a b)) (lit 2)) ra rb) (tl A) (butlast A)"
  have rows: "\<forall>r \<in> set ?rows. \<forall>t \<in> set r. snd t \<and> 0 \<le> fst t \<and> fst t \<le> fst d * M"
  proof (intro ballI)
    fix r t assume r: "r \<in> set ?rows" and t: "t \<in> set r"
    obtain q where q: "q \<in> set (zip (tl A) (butlast A))"
      and rq: "r = (\<lambda>(ra, rb). map2 (\<lambda>a b. f_div (f_mul d (f_add a b)) (lit 2)) ra rb) q"
      using r [unfolded set_map] by (rule imageE)
    obtain ra rb where qab: "q = (ra, rb)" by (cases q)
    have rab: "(ra, rb) \<in> set (zip (tl A) (butlast A))" using q qab by simp
    have r': "r = map2 (\<lambda>a b. f_div (f_mul d (f_add a b)) (lit 2)) ra rb" using rq qab by simp
    obtain p where p: "p \<in> set (zip ra rb)"
      and tp: "t = (\<lambda>(a, b). f_div (f_mul d (f_add a b)) (lit 2)) p"
      using t [unfolded r' set_map] by (rule imageE)
    obtain a b where pab: "p = (a, b)" by (cases p)
    have ab: "(a, b) \<in> set (zip ra rb)" using p pab by simp
    have t': "t = f_div (f_mul d (f_add a b)) (lit 2)" using tp pab by simp
    have "ra \<in> set A" using rab by (metis in_set_zipE list.set_sel(2) tl_Nil)
    then have a: "snd a \<and> 0 \<le> fst a \<and> fst a \<le> M" using ab A by (auto dest: set_zip_leftD)
    have "rb \<in> set A" using rab by (metis in_set_zipE in_set_butlastD)
    then have b: "snd b \<and> 0 \<le> fst b \<and> fst b \<le> M" using ab A by (auto dest: set_zip_rightD)
    show "snd t \<and> 0 \<le> fst t \<and> fst t \<le> fst d * M"
      unfolding t' by (rule trapz_term_in_range [OF a b d c1 c2])
  qed
  have len: "length ?rows = length A - 1" by simp
  have E: "0 \<le> fst d * M" using d(2) M by simp
  have up: "real (length ?rows) * (fst d * M) \<le> float64_max"
    unfolding len using c3 c4 by linarith
  have "\<forall>x \<in> set (sum_axis0_f64 k ?rows).
          snd x \<and> 0 \<le> fst x \<and> fst x \<le> real (length ?rows) * (fst d * M)" for k
    by (rule sum_axis0_f64_in_range [OF rows E up])
  then show ?thesis
    unfolding trapz_axis0_f64_def using c3 len by fastforce
qed

subsection \<open>The range of float64: the two measurements\<close>

lemma grid_point_between:
  assumes "2 \<le> n" and "k < nat n" and "a \<le> b"
  shows "a \<le> grid_point a b n k \<and> grid_point a b n k \<le> b"
proof -
  define m where "m = real_of_int (n - 1)"
  have m: "0 < m" using assms(1) by (simp add: m_def)
  have k: "real k \<le> m" using assms(1,2) by (simp add: m_def)
  have "0 \<le> real k * ((b - a) / m)" using assms(3) m by simp
  moreover have "real k * ((b - a) / m) \<le> m * ((b - a) / m)"
    using k assms(3) m by (intro mult_right_mono) simp_all
  moreover have "m * ((b - a) / m) = b - a" using m by simp
  ultimately show ?thesis unfolding grid_point_def m_def [symmetric] by linarith
qed

lemma linspace_between:
  assumes "2 \<le> n" and "linspace a b n = Inr xs" and "a \<le> b" and "x \<in> set xs"
  shows "a \<le> x \<and> x \<le> b"
proof -
  have len: "length xs = nat n"
    using linspace_length [of n a b] assms(1,2) by simp
  obtain k where k: "k < nat n" and x: "x = xs ! k"
    using assms(4) len by (metis in_set_conv_nth)
  show ?thesis
    unfolding x linspace_nth [OF assms(1) k assms(2)]
    by (rule grid_point_between [OF assms(1) k assms(3)])
qed

lemma compute_surface_area_f64_value:
  "map_sum id fst (compute_surface_area_f64 h) = fst (compute_surface_area h)"
proof -
  have "map (map fst)
          (map2 (\<lambda>ru rv. map2 (\<lambda>a b. area_integrand_f64 (lit (self_R h)) (lit a) (lit b)) ru rv)
             (self_U h) (self_V h))
        = elementwise (area_integrand (self_R h)) (self_U h) (self_V h)"
    by (auto simp add: elementwise_def fst_area_integrand_f64)
  then show ?thesis
    by (simp add: compute_surface_area_f64_def compute_surface_area_def Let_def
        fst_trapz_f64 map_fst_trapz_axis0_f64)
qed

lemma edge_length_f64_value:
  "fst (edge_length_f64 h du v) = edge_length h (fst du) (fst v)"
  by (simp add: edge_length_f64_def edge_length_def Let_def fst_trapz_f64 fst_arc_integrand_f64
      comp_def)

lemma compute_edge_length_f64_value:
  "map_sum id fst (compute_edge_length_f64 h) = fst (compute_edge_length h)"
  by (simp add: compute_edge_length_f64_def compute_edge_length_def Let_def edge_length_f64_value)

lemma map2_meshgrid:
  "meshgrid us vs = (A, B) \<Longrightarrow>
     map2 (\<lambda>ra rb. map2 f ra rb) A B = map (\<lambda>v. map (\<lambda>u. f u v) us) vs"
  by (auto simp: meshgrid_def list_eq_iff_nth_eq)

lemma le_float64_max: "x \<le> 2 ^ k \<Longrightarrow> k \<le> 1023 \<Longrightarrow> x \<le> float64_max"
proof -
  assume x: "x \<le> 2 ^ k" and k: "k \<le> 1023"
  have "(2::real) ^ k \<le> 2 ^ 1023" using k by (intro power_increasing) simp_all
  then show ?thesis using x float64_max_ge by linarith
qed

lemma spacing_in_range:
  assumes n: "2 \<le> n" "n \<le> 2 ^ 1023" and x: "0 \<le> x" "x \<le> 2 ^ k" and k: "k \<le> 1023"
  shows "snd (f_div (lit x) (lit (real_of_int (n - 1))))"
    and "0 \<le> fst (f_div (lit x) (lit (real_of_int (n - 1))))"
    and "fst (f_div (lit x) (lit (real_of_int (n - 1)))) \<le> 2 ^ k"
    and "real (nat n - 1) * fst (f_div (lit x) (lit (real_of_int (n - 1)))) = x"
proof -
  define m where "m = real_of_int (n - 1)"
  have m1: "1 \<le> m" using n(1) by (simp add: m_def)
  have "real_of_int n \<le> 2 ^ 1023" using n(2) by (metis of_int_le_iff of_int_numeral of_int_power)
  then have m2: "m \<le> 2 ^ 1023" by (simp add: m_def)
  have q0: "0 \<le> x / m" using x(1) m1 by simp
  have "1 * x \<le> m * x" using m1 x(1) by (rule mult_right_mono)
  then have q1: "x / m \<le> x" using m1 by (simp add: field_simps)
  have q2: "x / m \<le> 2 ^ k" using q1 x(2) by linarith
  have r1: "in_range x" using x k by (intro in_range_nonneg le_float64_max [of _ k]) simp_all
  have r2: "in_range m" using m1 m2 by (intro in_range_nonneg le_float64_max [of _ 1023]) simp_all
  have r3: "in_range (x / m)" using q0 q2 k by (intro in_range_nonneg le_float64_max [of _ k]) simp_all
  show "snd (f_div (lit x) (lit (real_of_int (n - 1))))"
    using r1 r2 r3 by (simp add: snd_f_op2 m_def)
  show "0 \<le> fst (f_div (lit x) (lit (real_of_int (n - 1))))"
    using q0 by (simp add: m_def)
  show "fst (f_div (lit x) (lit (real_of_int (n - 1)))) \<le> 2 ^ k"
    using q2 by (simp add: m_def)
  have "real (nat n - 1) = m" using n(1) by (simp add: m_def of_nat_diff)
  then show "real (nat n - 1) * fst (f_div (lit x) (lit (real_of_int (n - 1)))) = x"
    using m1 by (simp add: m_def)
qed

lemma two_pi_lit: "f_mul (lit 2) (lit pi) = lit (2 * pi)"
proof -
  have "pi \<le> 2 ^ 2" using pi_less_4 by simp
  then have "in_range pi" using pi_ge_zero by (intro in_range_nonneg le_float64_max [of _ 2]) simp_all
  moreover have "in_range 2" using float64_max_ge by (simp add: in_range_def)
  ultimately show ?thesis by (simp add: f_op2_def lit_def)
qed

lemma two_pi_le: "2 * pi \<le> 2 ^ 3"
  using pi_less_4 by simp

lemma fits_nonneg_upto:
  "fits k c \<Longrightarrow> 0 \<le> fst c \<Longrightarrow> snd c \<and> 0 \<le> fst c \<and> fst c \<le> 2 ^ k"
  by (simp add: fits_def)

lemma compute_surface_area_f64_in_range:
  assumes n: "2 \<le> n" "n \<le> 2 ^ 1023" and h: "init R w n = Inr h"
    and R: "\<bar>R\<bar> \<le> 2 ^ 500" and w: "0 \<le> w" "w \<le> 2 ^ 500"
  shows "\<exists>a. compute_surface_area_f64 h = Inr (a, True)"
proof -
  define us where "us = self_u h"
  define vs where "vs = self_v h"
  define du where "du = f_div (lit (2 * pi)) (lit (real_of_int (n - 1)))"
  define dv where "dv = f_div (lit w) (lit (real_of_int (n - 1)))"
  define A where "A = map (\<lambda>v. map (\<lambda>u. area_integrand_f64 (lit R) (lit u) (lit v)) us) vs"
  have n0: "0 \<le> n" using n by simp
  note f = init_fields [OF n0 h, folded us_def vs_def]
  have fR: "fits 500 (lit R)" using R by (intro fits_lit) simp_all
  have fu: "fits 3 (lit u)" if "u \<in> set us" for u
  proof -
    have "0 \<le> u \<and> u \<le> 2 * pi"
      by (rule linspace_between [OF n(1) f(4) _ that]) simp
    then have "\<bar>u\<bar> \<le> 2 ^ 3" using two_pi_le by linarith
    then show ?thesis by (intro fits_lit) simp_all
  qed
  have fv: "fits 500 (lit v)" if "v \<in> set vs" for v
  proof -
    have "- w / 2 \<le> v \<and> v \<le> w / 2"
      by (rule linspace_between [OF n(1) f(5) _ that]) (use w in simp)
    then have "\<bar>v\<bar> \<le> 2 ^ 500" using w by linarith
    then show ?thesis by (intro fits_lit) simp_all
  qed
  have cell: "snd (area_integrand_f64 (lit R) (lit u) (lit v)) \<and>
              0 \<le> fst (area_integrand_f64 (lit R) (lit u) (lit v)) \<and>
              fst (area_integrand_f64 (lit R) (lit u) (lit v)) \<le> 2 ^ 504"
    if "u \<in> set us" and "v \<in> set vs" for u v
    by (rule fits_nonneg_upto [OF area_integrand_fits [OF fR fu [OF that(1)] fv [OF that(2)]]])
      (simp add: fst_area_integrand_f64 area_integrand_nonneg)
  have A: "\<forall>r \<in> set A. \<forall>x \<in> set r. snd x \<and> 0 \<le> fst x \<and> fst x \<le> 2 ^ 504"
    unfolding A_def using cell by (simp add: image_iff)
  have lenA: "length A = nat n" using f by (simp add: A_def)
  have dv: "snd dv" "0 \<le> fst dv" "fst dv \<le> 2 ^ 500" "real (nat n - 1) * fst dv = w"
    unfolding dv_def by (rule spacing_in_range [OF n w]; simp)+
  have du: "snd du" "0 \<le> fst du" "fst du \<le> 2 ^ 3" "real (nat n - 1) * fst du = 2 * pi"
    unfolding du_def by (rule spacing_in_range [OF n _ two_pi_le]; simp)+
  have c2: "fst dv * (2 * 2 ^ 504) \<le> float64_max"
  proof -
    have "fst dv * (2 * 2 ^ 504) \<le> 2 ^ 500 * (2 * 2 ^ 504)"
      using dv(3) by (rule mult_right_mono) simp
    also have "\<dots> \<le> float64_max" by (simp add: float64_max_def)
    finally show ?thesis .
  qed
  have c3: "real (length A - 1) * (fst dv * 2 ^ 504) \<le> 2 ^ 1004"
  proof -
    have "real (length A - 1) * (fst dv * 2 ^ 504) = w * 2 ^ 504"
      unfolding lenA mult.assoc [symmetric] dv(4) ..
    also have "\<dots> \<le> 2 ^ 500 * 2 ^ 504" using w(2) by (rule mult_right_mono) simp
    also have "\<dots> = 2 ^ 1004" by (simp add: power_add [symmetric])
    finally show ?thesis .
  qed
  let ?S = "trapz_axis0_f64 A dv"
  have S: "\<forall>s \<in> set ?S. snd s \<and> 0 \<le> fst s \<and> fst s \<le> 2 ^ 1004"
    by (rule trapz_axis0_f64_in_range [OF A dv(1,2) _ _ c2 c3]) (simp_all add: float64_max_def)
  have lenS: "length ?S = nat n"
  proof -
    have "length ?S = length (trapz_axis0 (map (map fst) A) (fst dv))"
      using map_fst_trapz_axis0_f64 [of A dv] by (metis length_map)
    also have "\<dots> = nat n"
      by (rule trapz_axis0_length) (use f n in \<open>auto simp add: A_def\<close>)
    finally show ?thesis .
  qed
  have d2: "fst du * (2 * 2 ^ 1004) \<le> float64_max"
  proof -
    have "fst du * (2 * 2 ^ 1004) \<le> 2 ^ 3 * (2 * 2 ^ 1004)"
      using du(3) by (rule mult_right_mono) simp
    also have "\<dots> \<le> float64_max" by (simp add: float64_max_def)
    finally show ?thesis .
  qed
  have d3: "real (length ?S - 1) * (fst du * 2 ^ 1004) \<le> 2 ^ 1007"
  proof -
    have "real (length ?S - 1) * (fst du * 2 ^ 1004) = (2 * pi) * 2 ^ 1004"
      unfolding lenS mult.assoc [symmetric] du(4) ..
    also have "\<dots> \<le> 2 ^ 3 * 2 ^ 1004" using two_pi_le by (rule mult_right_mono) simp
    also have "\<dots> = 2 ^ 1007" by (simp add: power_add [symmetric])
    finally show ?thesis .
  qed
  have fin: "snd (trapz_f64 ?S du) \<and> 0 \<le> fst (trapz_f64 ?S du) \<and> fst (trapz_f64 ?S du) \<le> 2 ^ 1007"
    by (rule trapz_f64_in_range [OF S du(1,2) _ d2 d3]) (simp_all add: float64_max_def)
  have "self_n h - 1 \<noteq> 0" using f n by simp
  moreover have "map2 (\<lambda>ru rv. map2 (\<lambda>a b. area_integrand_f64 (lit R) (lit a) (lit b)) ru rv)
                   (self_U h) (self_V h) = A"
    unfolding A_def by (rule map2_meshgrid [OF f(8)])
  ultimately have "compute_surface_area_f64 h = Inr (trapz_f64 ?S du)"
    using f(1-3) by (simp add: compute_surface_area_f64_def Let_def du_def dv_def two_pi_lit)
  then show ?thesis
    using fin by (intro exI [of _ "fst (trapz_f64 ?S du)"]) (simp add: prod_eq_iff)
qed

lemma edge_length_f64_in_range:
  assumes n: "2 \<le> n" "n \<le> 2 ^ 1023" and h: "init R w n = Inr h"
    and R: "\<bar>R\<bar> \<le> 2 ^ 500" and v: "fits 500 v"
  shows "snd (edge_length_f64 h (f_div (lit (2 * pi)) (lit (real_of_int (n - 1)))) v) \<and>
         0 \<le> fst (edge_length_f64 h (f_div (lit (2 * pi)) (lit (real_of_int (n - 1)))) v) \<and>
         fst (edge_length_f64 h (f_div (lit (2 * pi)) (lit (real_of_int (n - 1)))) v) \<le> 2 ^ 507"
proof -
  define us where "us = self_u h"
  define du where "du = f_div (lit (2 * pi)) (lit (real_of_int (n - 1)))"
  define ys where "ys = map (\<lambda>a. arc_integrand_f64 (lit R) v (lit a)) us"
  have n0: "0 \<le> n" using n by simp
  note f = init_fields [OF n0 h, folded us_def]
  have fR: "fits 500 (lit R)" using R by (intro fits_lit) simp_all
  have fu: "fits 3 (lit u)" if "u \<in> set us" for u
  proof -
    have "0 \<le> u \<and> u \<le> 2 * pi"
      by (rule linspace_between [OF n(1) f(4) _ that]) simp
    then have "\<bar>u\<bar> \<le> 2 ^ 3" using two_pi_le by linarith
    then show ?thesis by (intro fits_lit) simp_all
  qed
  have cell: "snd (arc_integrand_f64 (lit R) v (lit u)) \<and>
              0 \<le> fst (arc_integrand_f64 (lit R) v (lit u)) \<and>
              fst (arc_integrand_f64 (lit R) v (lit u)) \<le> 2 ^ 504"
    if "u \<in> set us" for u
    by (rule fits_nonneg_upto [OF arc_integrand_fits [OF fR fu [OF that] v]])
      (simp add: fst_arc_integrand_f64 arc_integrand_nonneg)
  have ys: "\<forall>y \<in> set ys. snd y \<and> 0 \<le> fst y \<and> fst y \<le> 2 ^ 504"
    unfolding ys_def using cell by (simp add: image_iff)
  have len: "length ys = nat n" using f by (simp add: ys_def)
  have du: "snd du" "0 \<le> fst du" "fst du \<le> 2 ^ 3" "real (nat n - 1) * fst du = 2 * pi"
    unfolding du_def by (rule spacing_in_range [OF n _ two_pi_le]; simp)+
  have d2: "fst du * (2 * 2 ^ 504) \<le> float64_max"
  proof -
    have "fst du * (2 * 2 ^ 504) \<le> 2 ^ 3 * (2 * 2 ^ 504)"
      using du(3) by (rule mult_right_mono) simp
    also have "\<dots> \<le> float64_max" by (simp add: float64_max_def)
    finally show ?thesis .
  qed
  have d3: "real (length ys - 1) * (fst du * 2 ^ 504) \<le> 2 ^ 507"
  proof -
    have "real (length ys - 1) * (fst du * 2 ^ 504) = (2 * pi) * 2 ^ 504"
      unfolding len mult.assoc [symmetric] du(4) ..
    also have "\<dots> \<le> 2 ^ 3 * 2 ^ 504" using two_pi_le by (rule mult_right_mono) simp
    also have "\<dots> = 2 ^ 507" by (simp add: power_add [symmetric])
    finally show ?thesis .
  qed
  have "snd (trapz_f64 ys du) \<and> 0 \<le> fst (trapz_f64 ys du) \<and> fst (trapz_f64 ys du) \<le> 2 ^ 507"
    by (rule trapz_f64_in_range [OF ys du(1,2) _ d2 d3]) (simp_all add: float64_max_def)
  then show ?thesis
    using f(1) by (simp add: edge_length_f64_def Let_def ys_def us_def du_def)
qed

lemma compute_edge_length_f64_in_range:
  assumes n: "2 \<le> n" "n \<le> 2 ^ 1023" and h: "init R w n = Inr h"
    and R: "\<bar>R\<bar> \<le> 2 ^ 500" and w: "0 \<le> w" "w \<le> 2 ^ 500"
  shows "\<exists>l. compute_edge_length_f64 h = Inr (l, True)"
proof -
  define du where "du = f_div (lit (2 * pi)) (lit (real_of_int (n - 1)))"
  define l1 where "l1 = edge_length_f64 h du (f_div (lit w) (lit 2))"
  define l2 where "l2 = edge_length_f64 h du (f_div (f_neg (lit w)) (lit 2))"
  have n0: "0 \<le> n" using n by simp
  note f = init_fields [OF n0 h]
  have fw: "fits 500 (lit w)" using w by (intro fits_lit) simp_all
  have l1: "snd l1 \<and> 0 \<le> fst l1 \<and> fst l1 \<le> 2 ^ 507"
    unfolding l1_def du_def
    by (rule edge_length_f64_in_range [OF n h R fits_half [OF fw]])
  have l2: "snd l2 \<and> 0 \<le> fst l2 \<and> fst l2 \<le> 2 ^ 507"
    unfolding l2_def du_def
    by (rule edge_length_f64_in_range [OF n h R fits_half [OF fits_neg [OF fw]]])
  have r0: "in_range 0" by (simp add: in_range_def float64_max_nonneg)
  have r1: "in_range (fst l1)" using l1 by (intro in_range_nonneg le_float64_max [of _ 507]) simp_all
  have r2: "in_range (fst l1 + fst l2)"
    using l1 l2 by (intro in_range_nonneg le_float64_max [of _ 508]) simp_all
  have tot: "snd (f_add (f_add (lit 0) l1) l2)"
    using l1 l2 r0 r1 r2 by (simp add: snd_f_op2)
  have "self_n h - 1 \<noteq> 0" using f n by simp
  then have "compute_edge_length_f64 h = Inr (f_add (f_add (lit 0) l1) l2)"
    using f(1-3)
    by (simp add: compute_edge_length_f64_def Let_def l1_def l2_def du_def two_pi_lit)
  then show ?thesis
    using tot by (intro exI [of _ "fst (f_add (f_add (lit 0) l1) l2)"]) (simp add: prod_eq_iff)
qed

subsection \<open>An overflow\<close>

text \<open>
  For \<open>R = 2 ^ 600\<close>, \<open>w = 1\<close>, \<open>n = 2\<close> the first cell of the grid is \<open>u = 0\<close>, \<open>v = -1/2\<close>.
  There \<^verbatim>\<open>x_u * y_v - y_u * x_v\<close> is \<open>- (2 ^ 600 - 1/2)\<close>, and its square is out of range.
\<close>

lemma area_integrand_f64_third:
  assumes "snd (area_integrand_f64 R u v)"
  shows "in_range ((x_u (fst R) (fst u) (fst v) * y_v (fst u)
                    - y_u (fst R) (fst u) (fst v) * x_v (fst u))\<^sup>2)"
  using assms
  by (simp add: area_integrand_f64_def snd_f_op1 snd_f_op2 fst_derivatives_f64)

lemma third_component_overflows:
  "\<not> in_range ((x_u (2 ^ 600) 0 (- 1 / 2) * y_v 0 - y_u (2 ^ 600) 0 (- 1 / 2) * x_v 0)\<^sup>2)"
  by (simp add: x_u_def y_u_def x_v_def y_v_def in_range_def float64_max_def power2_eq_square)

lemma cell_overflows: "\<not> snd (area_integrand_f64 (lit (2 ^ 600)) (lit 0) (lit (- 1 / 2)))"
  using area_integrand_f64_third [of "lit (2 ^ 600)" "lit 0" "lit (- 1 / 2)"]
    third_component_overflows
  by (simp only: fst_lit) blast

lemma overflow_2x2:
  assumes "\<not> snd c00"
  shows "\<not> snd (trapz_f64 (trapz_axis0_f64 [[c00, c01], [c10, c11]] dv) du)"
  using assms
  by (simp add: trapz_f64_def trapz_axis0_f64_def sum_axis0_f64_def f_sum_def snd_f_op2)

lemma list_of_two:
  assumes "length xs = 2"
  shows "xs = [xs ! 0, xs ! 1]"
  using assms by (auto simp add: list_eq_iff_nth_eq less_Suc_eq numeral_2_eq_2)

lemma surface_area_f64_overflows:
  "surface_area_f64_of (2 ^ 600) 1 2 = Inr (surface_area_spec (2 ^ 600) 1 2, False)"
proof -
  obtain h where h: "init (2 ^ 600) 1 2 = Inr h"
    using init_handle [of 2 1 "2 ^ 600"] by auto
  define us where "us = self_u h"
  define vs where "vs = self_v h"
  note f = init_fields [OF _ h, folded us_def vs_def, simplified]
  have us: "us = [us ! 0, us ! 1]" using f by (intro list_of_two) simp
  have vs: "vs = [vs ! 0, vs ! 1]" using f by (intro list_of_two) simp
  have u0: "us ! 0 = 0"
    using linspace_nth [of 2 0 0 "2 * pi" us] f by (simp add: grid_point_def)
  have v0: "vs ! 0 = - 1 / 2"
    using linspace_nth [of 2 0 "- 1 / 2" "1 / 2" vs] f by (simp add: grid_point_def)
  let ?cell = "\<lambda>u v. area_integrand_f64 (lit (2 ^ 600)) (lit u) (lit v)"
  have A: "map2 (\<lambda>ru rv. map2 ?cell ru rv) (self_U h) (self_V h)
           = [[?cell 0 (- 1 / 2), ?cell (us ! 1) (- 1 / 2)],
              [?cell 0 (vs ! 1), ?cell (us ! 1) (vs ! 1)]]"
  proof -
    have "map2 (\<lambda>ru rv. map2 ?cell ru rv) (self_U h) (self_V h)
          = map (\<lambda>v. map (\<lambda>u. ?cell u v) us) vs"
      by (rule map2_meshgrid) (use f in simp)
    also have "\<dots> = map (\<lambda>v. map (\<lambda>u. ?cell u v) [us ! 0, us ! 1]) [vs ! 0, vs ! 1]"
      using us vs by simp
    finally show ?thesis by (simp add: u0 v0)
  qed
  have "\<not> snd (trapz_f64 (trapz_axis0_f64
            (map2 (\<lambda>ru rv. map2 ?cell ru rv) (self_U h) (self_V h)) dv) du)" for dv du
    unfolding A by (rule overflow_2x2 [OF cell_overflows])
  then have flag: "\<exists>r. compute_surface_area_f64 h = Inr r \<and> \<not> snd r"
    using f by (simp add: compute_surface_area_f64_def Let_def)
  have "fst (compute_surface_area h) = Inr (surface_area_spec (2 ^ 600) 1 2)"
    using compute_surface_area_eq [OF _ h] by simp
  then have "map_sum id fst (compute_surface_area_f64 h) = Inr (surface_area_spec (2 ^ 600) 1 2)"
    by (simp only: compute_surface_area_f64_value)
  then show ?thesis
    using flag h by (auto simp add: surface_area_f64_of_def prod_eq_iff)
qed

lemma f64_result:
  assumes "map_sum id fst r = Inr a"
  shows "r = Inr (a, snd (projr r))"
  using assms by (cases r) (auto simp add: prod_eq_iff)

section \<open>The claims\<close>

text \<open>
  Claim C1, as the specification states it: construction fails with \<^verbatim>\<open>InvalidResolution\<close>
  whenever \<open>n < 2\<close>, and no handle is produced. The code has no such check: for
  \<open>R = 3\<close>, \<open>w = 1\<close>, \<open>n = 1\<close> the constructor returns the handle below, with a grid
  of one point and a mesh of one cell.
\<close>

theorem init_counterexample:
  "init 3 1 1 = Inr \<lparr>self_R = 3, self_w = 1, self_n = 1, self_u = [0], self_v = [- 1 / 2],
       self_U = [[0]], self_V = [[- 1 / 2]],
       self_mesh = Some ([[5 / 2]], [[0]], [[0]])\<rparr>"
  by (simp add: init_def linspace_def meshgrid_def generate_mesh_def elementwise_def
      pos_x_def pos_y_def pos_z_def Let_def)

text \<open>
  Claim C1, amended: \<^verbatim>\<open>__init__\<close> checks nothing. Construction fails only for \<open>n < 0\<close>,
  with the \<^verbatim>\<open>ValueError\<close> of \<^verbatim>\<open>np.linspace\<close>, and produces a handle for every \<open>n \<ge> 0\<close>,
  in particular for \<open>n = 0\<close>, \<open>n = 1\<close> and every \<open>n \<ge> 2\<close>. For \<open>n = 1\<close> the division by
  \<open>n - 1\<close> happens later, in the two measurements, which raise \<^verbatim>\<open>ZeroDivisionError\<close>.
\<close>

theorem init_no_resolution_check:
  "(n < 0 \<longrightarrow> init R w n = Inl ValueError) \<and>
   (0 \<le> n \<longrightarrow> (\<exists>h. init R w n = Inr h)) \<and>
   surface_area_of R w 1 = Inl ZeroDivisionError \<and>
   edge_length_of R w 1 = Inl ZeroDivisionError"
proof -
  have neg: "n < 0 \<longrightarrow> init R w n = Inl ValueError"
    by (simp add: init_def linspace_def)
  have pos: "0 \<le> n \<longrightarrow> (\<exists>h. init R w n = Inr h)"
    using init_handle [of n w R] by blast
  obtain h1 where h1: "init R w 1 = Inr h1"
    using init_handle [of 1 w R] by auto
  have "surface_area_of R w 1 = Inl ZeroDivisionError"
    using h1 measurements_at_one(1) [OF h1] by (simp add: surface_area_of_def)
  moreover have "edge_length_of R w 1 = Inl ZeroDivisionError"
    using h1 measurements_at_one(2) [OF h1] by (simp add: edge_length_of_def)
  ultimately show ?thesis using neg pos by blast
qed

theorem init_no_resolution_check_witness:
  "init 3 1 (- 1) = Inl ValueError \<and> (\<exists>h. init 3 1 0 = Inr h) \<and> (\<exists>h. init 3 1 1 = Inr h) \<and>
   surface_area_of 3 1 1 = Inl ZeroDivisionError \<and> edge_length_of 3 1 1 = Inl ZeroDivisionError"
  using init_no_resolution_check [of "- 1" 3 1] init_no_resolution_check [of 0 3 1]
    init_no_resolution_check [of 1 3 1]
  by simp





text \<open>
  Claim C4: for \<open>n \<ge> 2\<close> \<^verbatim>\<open>get_mesh\<close> returns three arrays of \<open>n\<close> rows of \<open>n\<close> entries, the
  entry \<open>[i][j]\<close> being the position at \<open>(u[j], v[i])\<close>; hence
  \<open>x\<^sup>2 + y\<^sup>2 = (R + v cos (u / 2))\<^sup>2\<close> in every cell.
\<close>

theorem get_mesh_positions:
  assumes "2 \<le> n"
  shows "\<exists>h x y z. init R w n = Inr h \<and> fst (get_mesh h) = Some (x, y, z) \<and>
           length x = nat n \<and> length y = nat n \<and> length z = nat n \<and>
           (\<forall>i < nat n. length (x ! i) = nat n \<and> length (y ! i) = nat n \<and> length (z ! i) = nat n) \<and>
           (\<forall>i < nat n. \<forall>j < nat n.
              x ! i ! j = (R + self_v h ! i * cos (self_u h ! j / 2)) * cos (self_u h ! j) \<and>
              y ! i ! j = (R + self_v h ! i * cos (self_u h ! j / 2)) * sin (self_u h ! j) \<and>
              z ! i ! j = self_v h ! i * sin (self_u h ! j / 2) \<and>
              (x ! i ! j)\<^sup>2 + (y ! i ! j)\<^sup>2 = (R + self_v h ! i * cos (self_u h ! j / 2))\<^sup>2)"
proof -
  have n0: "0 \<le> n" using assms by simp
  obtain h where h: "init R w n = Inr h"
    using init_handle [of n w R] assms by auto
  note f = init_fields [OF n0 h]
  define x where "x = map (\<lambda>v. map (\<lambda>u. pos_x R u v) (self_u h)) (self_v h)"
  define y where "y = map (\<lambda>v. map (\<lambda>u. pos_y R u v) (self_u h)) (self_v h)"
  define z where "z = map (\<lambda>v. map (\<lambda>u. pos_z u v) (self_u h)) (self_v h)"
  have m: "fst (get_mesh h) = Some (x, y, z)"
    using f(9) by (simp add: get_mesh_def x_def y_def z_def)
  have len: "length x = nat n" "length y = nat n" "length z = nat n"
    using f(7) by (simp_all add: x_def y_def z_def)
  have rows: "length (x ! i) = nat n \<and> length (y ! i) = nat n \<and> length (z ! i) = nat n"
    if "i < nat n" for i
    using that f(6,7) by (simp add: x_def y_def z_def)
  have sq: "((a * cos t)\<^sup>2 + (a * sin t)\<^sup>2 = a\<^sup>2)" for a t :: real
  proof -
    have "(a * cos t)\<^sup>2 + (a * sin t)\<^sup>2 = a\<^sup>2 * ((sin t)\<^sup>2 + (cos t)\<^sup>2)"
      by (simp only: power_mult_distrib distrib_left add.commute)
    also have "\<dots> = a\<^sup>2" by (simp only: sin_cos_squared_add mult_1_right)
    finally show ?thesis .
  qed
  have cell: "x ! i ! j = (R + self_v h ! i * cos (self_u h ! j / 2)) * cos (self_u h ! j) \<and>
              y ! i ! j = (R + self_v h ! i * cos (self_u h ! j / 2)) * sin (self_u h ! j) \<and>
              z ! i ! j = self_v h ! i * sin (self_u h ! j / 2) \<and>
              (x ! i ! j)\<^sup>2 + (y ! i ! j)\<^sup>2 = (R + self_v h ! i * cos (self_u h ! j / 2))\<^sup>2"
    if "i < nat n" "j < nat n" for i j
    using that f(6,7) by (simp add: x_def y_def z_def pos_x_def pos_y_def pos_z_def sq)
  show ?thesis using h m len rows cell by blast
qed

theorem get_mesh_positions_witness:
  "\<exists>h x y z. init 3 1 2 = Inr h \<and> fst (get_mesh h) = Some (x, y, z) \<and>
     length x = 2 \<and> length (x ! 1) = 2 \<and>
     x ! 1 ! 0 = (3 + self_v h ! 1 * cos (self_u h ! 0 / 2)) * cos (self_u h ! 0) \<and>
     (x ! 1 ! 0)\<^sup>2 + (y ! 1 ! 0)\<^sup>2 = (3 + self_v h ! 1 * cos (self_u h ! 0 / 2))\<^sup>2"
proof -
  obtain h x y z where m: "init 3 1 2 = Inr h" "fst (get_mesh h) = Some (x, y, z)"
      "length x = nat 2"
      "\<forall>i < nat 2. length (x ! i) = nat 2 \<and> length (y ! i) = nat 2 \<and> length (z ! i) = nat 2"
      "\<forall>i < nat 2. \<forall>j < nat 2.
         x ! i ! j = (3 + self_v h ! i * cos (self_u h ! j / 2)) * cos (self_u h ! j) \<and>
         y ! i ! j = (3 + self_v h ! i * cos (self_u h ! j / 2)) * sin (self_u h ! j) \<and>
         z ! i ! j = self_v h ! i * sin (self_u h ! j / 2) \<and>
         (x ! i ! j)\<^sup>2 + (y ! i ! j)\<^sup>2 = (3 + self_v h ! i * cos (self_u h ! j / 2))\<^sup>2"
    using get_mesh_positions [of 2 3 1] by auto
  have "(1::nat) < nat 2" "(0::nat) < nat 2" by simp_all
  then show ?thesis using m by (metis nat_numeral)
qed

text \<open>
  Claim C5: for \<open>n \<ge> 2\<close> the grid of the constructed handle satisfies
  \<open>u[0] = 0\<close>, \<open>u[n-1] = 2\<pi>\<close>, \<open>v[0] = - w / 2\<close>, \<open>v[n-1] = w / 2\<close>, with consecutive
  samples \<open>2\<pi> / (n - 1)\<close> and \<open>w / (n - 1)\<close> apart (\<^const>\<open>grid_invariant\<close>), and the same
  holds after any sequence of calls of the three operations.
\<close>

theorem grid_invariant_established_and_kept:
  assumes "2 \<le> n"
  shows "\<exists>h. init R w n = Inr h \<and> grid_invariant w n h \<and> (\<forall>cs. grid_invariant w n (calls cs h))"
proof -
  obtain h where h: "init R w n = Inr h"
    using init_handle [of n w R] assms by auto
  then show ?thesis using init_grid_invariant [OF assms h] by (simp add: calls_id)
qed

theorem grid_invariant_established_and_kept_witness:
  "\<exists>h. init 3 1 2 = Inr h \<and> grid_invariant 1 2 h \<and>
     grid_invariant 1 2 (calls [ComputeSurfaceArea, GetMesh, ComputeEdgeLength] h)"
  using grid_invariant_established_and_kept [of 2 3 1] by blast

text \<open>
  Claim C9: each of \<^verbatim>\<open>get_mesh\<close>, \<^verbatim>\<open>compute_surface_area\<close> and \<^verbatim>\<open>compute_edge_length\<close>
  leaves the object as it was, whatever it returns or raises; so does any sequence of
  calls, and \<^verbatim>\<open>get_mesh\<close> returns the same mesh before and after.
\<close>

theorem operations_read_only:
  "snd (get_mesh h) = h \<and> snd (compute_surface_area h) = h \<and> snd (compute_edge_length h) = h \<and>
   calls cs h = h \<and> fst (get_mesh (calls cs h)) = fst (get_mesh h)"
  by (simp add: calls_id get_mesh_def compute_surface_area_def compute_edge_length_def Let_def)

text \<open>
  Claim C6, as the specification states it: for all \<open>R > 0\<close>, \<open>w > 0\<close> and \<open>n \<ge> 2\<close> both
  measurements are finite. For \<open>R = 2 ^ 600\<close>, \<open>w = 1\<close>, \<open>n = 2\<close> the method
  \<^verbatim>\<open>compute_surface_area\<close> returns, but not a finite number: at the first cell,
  \<open>u = 0\<close> and \<open>v = -1/2\<close>, the square of the component \<^verbatim>\<open>x_u * y_v - y_u * x_v\<close> of the
  cross product, about \<open>2 ^ 1200\<close>, is beyond the range.
\<close>

theorem measurements_finite_counterexample:
  "surface_area_f64_of (2 ^ 600) 1 2 = Inr (surface_area_spec (2 ^ 600) 1 2, False) \<and>
   \<not> in_range ((x_u (2 ^ 600) 0 (- 1 / 2) * y_v 0 - y_u (2 ^ 600) 0 (- 1 / 2) * x_v 0)\<^sup>2)"
proof
  show "surface_area_f64_of (2 ^ 600) 1 2 = Inr (surface_area_spec (2 ^ 600) 1 2, False)"
    by (rule surface_area_f64_overflows)
  show "\<not> in_range ((x_u (2 ^ 600) 0 (- 1 / 2) * y_v 0 - y_u (2 ^ 600) 0 (- 1 / 2) * x_v 0)\<^sup>2)"
    by (rule third_component_overflows)
qed

text \<open>
  Claim C6, amended: for \<open>R > 0\<close>, \<open>w > 0\<close> and \<open>n \<ge> 2\<close> both measurements return a value,
  not an exception (the divisor \<open>n - 1\<close> is not zero, also at \<open>n = 2\<close>), and a value whose
  computation has stayed in range is non-negative. The computation stays in range, so
  that both values are finite, whenever \<open>R \<le> 2 ^ 500\<close> and \<open>w \<le> 2 ^ 500\<close> (and \<open>n - 1\<close>
  is itself in range, \<open>n \<le> 2 ^ 1023\<close>).
\<close>

theorem measurements_in_range:
  assumes "0 < R" and "0 < w" and "2 \<le> n"
  shows "\<exists>h a l pa pl.
           init R w n = Inr h \<and>
           compute_surface_area_f64 h = Inr (a, pa) \<and> compute_edge_length_f64 h = Inr (l, pl) \<and>
           compute_surface_area h = (Inr a, h) \<and> compute_edge_length h = (Inr l, h) \<and>
           (pa \<longrightarrow> 0 \<le> a) \<and> (pl \<longrightarrow> 0 \<le> l) \<and>
           (R \<le> 2 ^ 500 \<and> w \<le> 2 ^ 500 \<and> n \<le> 2 ^ 1023 \<longrightarrow> pa \<and> pl)"
proof -
  obtain h where h: "init R w n = Inr h"
    using init_handle [of n w R] assms(3) by auto
  define a where "a = surface_area_spec R w n"
  define l where "l = edge_spec R n (w / 2) + edge_spec R n (- w / 2)"
  define pa where "pa = snd (projr (compute_surface_area_f64 h))"
  define pl where "pl = snd (projr (compute_edge_length_f64 h))"
  have ra: "compute_surface_area h = (Inr a, h)"
    unfolding a_def by (rule compute_surface_area_eq [OF assms(3) h])
  have rl: "compute_edge_length h = (Inr l, h)"
    unfolding l_def by (rule compute_edge_length_eq [OF assms(3) h])
  have fa: "compute_surface_area_f64 h = Inr (a, pa)"
    unfolding pa_def using compute_surface_area_f64_value [of h] ra
    by (intro f64_result) simp
  have fl: "compute_edge_length_f64 h = Inr (l, pl)"
    unfolding pl_def using compute_edge_length_f64_value [of h] rl
    by (intro f64_result) simp
  have a0: "0 \<le> a"
    unfolding a_def using assms by (intro surface_area_spec_nonneg) simp_all
  have l0: "0 \<le> l"
    unfolding l_def by (intro add_nonneg_nonneg edge_spec_nonneg assms(3))
  have "pa \<and> pl" if b: "R \<le> 2 ^ 500 \<and> w \<le> 2 ^ 500 \<and> n \<le> 2 ^ 1023"
  proof -
    have R: "\<bar>R\<bar> \<le> 2 ^ 500" using assms(1) b by simp
    have w: "0 \<le> w" "w \<le> 2 ^ 500" using assms(2) b by simp_all
    have n: "2 \<le> n" "n \<le> 2 ^ 1023" using assms(3) b by simp_all
    show ?thesis
      using compute_surface_area_f64_in_range [OF n h R w]
        compute_edge_length_f64_in_range [OF n h R w] fa fl
      by simp
  qed
  then show ?thesis using h ra rl fa fl a0 l0 by blast
qed

theorem measurements_in_range_witness:
  "\<exists>h a l. init 3 1 2 = Inr h \<and>
      compute_surface_area_f64 h = Inr (a, True) \<and> compute_edge_length_f64 h = Inr (l, True) \<and>
      compute_surface_area h = (Inr a, h) \<and> compute_edge_length h = (Inr l, h) \<and>
      0 \<le> a \<and> 0 \<le> l"
  using measurements_in_range [of 3 1 2] by auto

text \<open>
  Claim C7, as the specification states it: the area grows with \<open>n\<close>. For \<open>R = 3\<close>,
  \<open>w = 1\<close> the value at \<open>n = 3\<close> is smaller than the value at \<open>n = 2\<close>.
\<close>

theorem surface_area_monotone_counterexample:
  "surface_area_of 3 1 2 = Inr (pi * (sqrt (197 / 16) + sqrt (101 / 16))) \<and>
   surface_area_of 3 1 3
     = Inr (pi * (1 / 2) * ((sqrt (197 / 16) + sqrt (101 / 16)) / 2 + sqrt (145 / 16) + 6)) \<and>
   pi * (1 / 2) * ((sqrt (197 / 16) + sqrt (101 / 16)) / 2 + sqrt (145 / 16) + 6)
     < pi * (sqrt (197 / 16) + sqrt (101 / 16))"
  using area_3_lt_2 by (simp only: surface_area_of_eq area_3_1_2 area_3_1_3)

text \<open>
  Claim C7, amended: for fixed \<open>R\<close> and \<open>w\<close> the operation returns a value at every
  resolution \<open>n \<ge> 2\<close>, but the values do not increase monotonically with \<open>n\<close>: for
  \<open>R = 3\<close>, \<open>w = 1\<close> the value at \<open>n = 3\<close> is strictly smaller than the value at
  \<open>n = 2\<close>.
\<close>

theorem surface_area_not_monotone:
  "(2 \<le> n \<longrightarrow> (\<exists>a. surface_area_of R w n = Inr a)) \<and>
   (\<exists>a2 a3. surface_area_of 3 1 2 = Inr a2 \<and> surface_area_of 3 1 3 = Inr a3 \<and> a3 < a2)"
proof (intro conjI impI)
  assume "2 \<le> n"
  then show "\<exists>a. surface_area_of R w n = Inr a"
    by (simp add: surface_area_of_eq)
next
  have "surface_area_spec 3 1 3 < surface_area_spec 3 1 2"
    unfolding area_3_1_2 area_3_1_3 by (rule area_3_lt_2)
  then show "\<exists>a2 a3. surface_area_of 3 1 2 = Inr a2 \<and> surface_area_of 3 1 3 = Inr a3 \<and> a3 < a2"
    by (simp add: surface_area_of_eq)
qed

theorem surface_area_not_monotone_witness:
  "2 \<le> (2::int) \<and> (\<exists>a. surface_area_of 3 1 2 = Inr a) \<and>
   (\<exists>a2 a3. surface_area_of 3 1 2 = Inr a2 \<and> surface_area_of 3 1 3 = Inr a3 \<and> a3 < a2)"
  using surface_area_not_monotone [of 2 3 1] by simp



text \<open>
  Claim C10: for \<open>n \<ge> 2\<close> the integrand at \<open>(w / 2, u)\<close> is the integrand at
  \<open>(- w / 2, 2\<pi> - u)\<close>, the two passes of the loop of \<^verbatim>\<open>compute_edge_length\<close> give the
  same value, and the method returns twice the value of either.
\<close>

theorem edge_lengths_equal:
  assumes "2 \<le> n"
  shows "\<exists>h. init R w n = Inr h \<and>
           (\<forall>u. arc_integrand R (w / 2) u = arc_integrand R (- w / 2) (2 * pi - u)) \<and>
           edge_length h (2 * pi / real_of_int (n - 1)) (w / 2)
             = edge_length h (2 * pi / real_of_int (n - 1)) (- w / 2) \<and>
           fst (compute_edge_length h)
             = Inr (2 * edge_length h (2 * pi / real_of_int (n - 1)) (w / 2)) \<and>
           fst (compute_edge_length h)
             = Inr (2 * edge_length h (2 * pi / real_of_int (n - 1)) (- w / 2))"
proof -
  obtain h where h: "init R w n = Inr h"
    using init_handle [of n w R] assms by auto
  have s: "edge_spec R n (- w / 2) = edge_spec R n (w / 2)"
    using edge_spec_symmetric [OF assms, of R "w / 2"] by simp
  have r: "arc_integrand R (w / 2) u = arc_integrand R (- w / 2) (2 * pi - u)" for u
    using arc_integrand_reflect [of R "w / 2" u] by simp
  show ?thesis
    using h r s edge_length_eq [OF assms h] compute_edge_length_eq [OF assms h] by simp
qed

theorem edge_lengths_equal_witness:
  "\<exists>h. init 3 1 2 = Inr h \<and>
     edge_length h (2 * pi) (1 / 2) = edge_length h (2 * pi) (- 1 / 2) \<and>
     fst (compute_edge_length h) = Inr (2 * edge_length h (2 * pi) (1 / 2))"
  using edge_lengths_equal [of 2 3 1] by auto

end
